theory Spec2Isabelle
  imports Complex_Main "HOL-Library.Multiset" "HOL-Library.While_Combinator" "HOL-Library.Sublist"
begin

section \<open>Data model\<close>

text \<open>
  A point is a row of coordinates, a point cloud a two-dimensional array given as the list
  of its rows. The float64 numbers of the source are represented by real numbers. The
  operations of the metric are parameters, and the arithmetic around them is exact, with one
  exception: the division that turns the label counts into the weights is rounded to
  float64, since the value of the weights depends on it. NaN and infinities are outside the
  model.

  The random generator behind \<^verbatim>\<open>np.random.randint\<close> is the stream of the raw values
  it will produce; a draw consumes a prefix of the stream, and every function that samples
  returns the remaining stream next to its result, also when it raises.
\<close>

type_synonym point = "real list"
type_synonym cloud = "point list"
type_synonym rng = "nat \<Rightarrow> nat"

datatype error = NotImplementedError string | ValueError | ZeroDivisionError | IndexError

text \<open>
  The metric object of geomstats is external to the repository. It is a record of its three
  operations; \<^verbatim>\<open>HypersphereMetric(dimension=d)\<close> is a parameter \<open>hs\<close> of every
  operation, applied to the dimension. \<^verbatim>\<open>metric.dist(p, rows)\<close> with a
  two-dimensional second argument is the list of the distances from \<open>p\<close> to each row.
\<close>

record metric =
  metric_dist :: "point \<Rightarrow> point \<Rightarrow> real"
  metric_exp :: "point \<Rightarrow> point \<Rightarrow> point"
  metric_log :: "point \<Rightarrow> point \<Rightarrow> point"

definition TOLERANCE :: real where
  "TOLERANCE = 1 / 100000"

definition IMPLEMENTED :: "string list" where
  "IMPLEMENTED = [''S1'', ''S2'']"

section \<open>String formatting of the error messages\<close>

text \<open>\<^verbatim>\<open>'{}'.format(x)\<close> prints \<^verbatim>\<open>None\<close> as \<^verbatim>\<open>None\<close>, a string as
  itself, and a tuple of strings as the parenthesised, comma separated list of their
  quoted forms.\<close>

definition format_space :: "string option \<Rightarrow> string" where
  "format_space space = (case space of None \<Rightarrow> ''None'' | Some s \<Rightarrow> s)"

definition py_repr :: "string \<Rightarrow> string" where
  "py_repr s = [CHR 0x27] @ s @ [CHR 0x27]"

fun join_comma :: "string list \<Rightarrow> string" where
  "join_comma [] = []"
| "join_comma [s] = s"
| "join_comma (s # t # ts) = s @ '', '' @ join_comma (t # ts)"

definition format_tuple :: "string list \<Rightarrow> string" where
  "format_tuple xs =
     ''('' @ join_comma (map py_repr xs) @ (if length xs = 1 then '','' else '''') @ '')''"

definition not_implemented :: "string \<Rightarrow> string \<Rightarrow> string option \<Rightarrow> error" where
  "not_implemented pre mid space =
     NotImplementedError (pre @ format_space space @ mid @ format_tuple IMPLEMENTED @ ''.'')"

definition space_in_IMPLEMENTED :: "string option \<Rightarrow> bool" where
  "space_in_IMPLEMENTED space = (case space of None \<Rightarrow> False | Some s \<Rightarrow> s \<in> set IMPLEMENTED)"

text \<open>The \<^verbatim>\<open>if space not in IMPLEMENTED: raise ... elif space == 'S1': ... else: ...\<close>
  chain that opens each of the four operations; \<open>pre\<close> and \<open>mid\<close> are the two
  fragments of the operation's own message.\<close>

definition select_metric ::
  "(nat \<Rightarrow> metric) \<Rightarrow> string \<Rightarrow> string \<Rightarrow> string option \<Rightarrow> error + metric" where
  "select_metric hs pre mid space =
     (if \<not> space_in_IMPLEMENTED space then Inl (not_implemented pre mid space)
      else if space = Some ''S1'' then Inr (hs 1)
      else Inr (hs 2))"

section \<open>numpy primitives\<close>

text \<open>\<^verbatim>\<open>np.random.randint(low=0, high=high, size=size)\<close>: an empty array when
  \<open>sz\<close> is 0 (numpy returns it before it checks the bounds), \<^verbatim>\<open>ValueError\<close> when
  \<open>high \<le> 0\<close>, otherwise \<open>sz\<close> values below \<open>high\<close> (\<open>sz\<close> is the source's
  \<^verbatim>\<open>size\<close>).\<close>

definition randint :: "nat \<Rightarrow> nat \<Rightarrow> rng \<Rightarrow> (error + nat list) \<times> rng" where
  "randint high sz g =
     (if sz = 0 then (Inr [], g)
      else if high = 0 then (Inl ValueError, g)
      else (Inr (map (\<lambda>i. g i mod high) [0..<sz]), \<lambda>i. g (i + sz)))"

text \<open>\<^verbatim>\<open>a.argmin()\<close>: the index of the first occurrence of the least entry;
  \<^verbatim>\<open>ValueError\<close> on an empty array.\<close>

fun argmin_scan :: "real list \<Rightarrow> nat \<Rightarrow> nat \<Rightarrow> real \<Rightarrow> nat" where
  "argmin_scan [] i best_i best = best_i"
| "argmin_scan (x # xs) i best_i best =
     (if x < best then argmin_scan xs (Suc i) i x else argmin_scan xs (Suc i) best_i best)"

definition argmin :: "real list \<Rightarrow> error + nat" where
  "argmin ds = (case ds of [] \<Rightarrow> Inl ValueError | x # xs \<Rightarrow> Inr (argmin_scan xs 1 0 x))"

text \<open>\<^verbatim>\<open>a.max()\<close>: \<^verbatim>\<open>ValueError\<close> on an empty array.\<close>

definition array_max :: "real list \<Rightarrow> error + real" where
  "array_max ds = (case ds of [] \<Rightarrow> Inl ValueError | x # xs \<Rightarrow> Inr (foldl max x xs))"

text \<open>
  Division of float64 numbers gives the float64 nearest to the exact quotient, halves going
  to the neighbour with an even significand. \<open>float64 x\<close> is that nearest number: the
  magnitude is brought into the range from \<^verbatim>\<open>2^52\<close> up to \<^verbatim>\<open>2^53\<close> by doubling (at most
  1074 times, which is where the subnormal numbers end) or by halving, rounded there to an
  integer, and scaled back. Magnitudes from \<^verbatim>\<open>2^1024\<close> on, which float64 turns into an
  infinity, do not arise from dividing a count by the number of points.
\<close>

definition round_half_even :: "real \<Rightarrow> int" where
  "round_half_even y =
     (let f = \<lfloor>y\<rfloor>; d = y - of_int f
      in if d < 1 / 2 then f else if 1 / 2 < d then f + 1 else if even f then f else f + 1)"

function scale_up :: "real \<Rightarrow> nat \<Rightarrow> real \<times> nat" where
  "scale_up y k = (if 0 < y \<and> y < 2 ^ 52 \<and> k < 1074 then scale_up (2 * y) (k + 1) else (y, k))"
  by pat_completeness auto
termination
  by (relation "measure (\<lambda>(y, k). 1074 - k)") auto

function scale_down :: "real \<Rightarrow> nat \<Rightarrow> real \<times> nat" where
  "scale_down y k = (if 2 ^ 53 \<le> y then scale_down (y / 2) (k + 1) else (y, k))"
  by pat_completeness auto
termination
proof (relation "measure (\<lambda>(y, k). nat \<lceil>y\<rceil>)")
  show "wf (measure (\<lambda>(y, k). nat \<lceil>y\<rceil>))" by simp
next
  fix y :: real and k :: nat
  assume a: "2 ^ 53 \<le> y"
  have "\<lceil>y / 2\<rceil> < \<lceil>y\<rceil>"
  proof -
    have "of_int \<lceil>y / 2\<rceil> < y / 2 + 1" by linarith
    also have "\<dots> \<le> y" using a by simp
    also have "\<dots> \<le> of_int \<lceil>y\<rceil>" by linarith
    finally show ?thesis by simp
  qed
  moreover have "0 < \<lceil>y\<rceil>" using a by (simp add: ceiling_less_iff)
  ultimately show "((y / 2, k + 1), (y, k)) \<in> measure (\<lambda>(y, k). nat \<lceil>y\<rceil>)"
    by simp
qed

declare scale_up.simps [simp del]
declare scale_down.simps [simp del]

definition float64 :: "real \<Rightarrow> real" where
  "float64 x =
     (if \<bar>x\<bar> < 2 ^ 53
      then (case scale_up \<bar>x\<bar> 0 of (y, k) \<Rightarrow> sgn x * of_int (round_half_even y) / 2 ^ k)
      else (case scale_down \<bar>x\<bar> 0 of (y, k) \<Rightarrow> sgn x * of_int (round_half_even y) * 2 ^ k))"

section \<open>sample_from\<close>

text \<open>Advanced indexing with \<^verbatim>\<open>np.ix_\<close> builds a new array from the selected rows.\<close>

definition sample_from :: "cloud \<Rightarrow> nat \<Rightarrow> rng \<Rightarrow> (error + cloud) \<times> rng" where
  "sample_from points sz g =
     (let n_points = length points in
      case randint n_points sz g of
        (Inl e, g') \<Rightarrow> (Inl e, g')
      | (Inr index, g') \<Rightarrow> (Inr (map (\<lambda>i. points ! i) index), g'))"

section \<open>closest_neighbor\<close>

definition closest_neighbor ::
  "(nat \<Rightarrow> metric) \<Rightarrow> point \<Rightarrow> cloud \<Rightarrow> string option \<Rightarrow> error + nat" where
  "closest_neighbor hs point neighbors space =
     (case select_metric hs ''The closest neighbor function is not implemented for space ''
             ''. The spaces available are: '' space of
        Inl e \<Rightarrow> Inl e
      | Inr m \<Rightarrow>
          (let dist = map (metric_dist m point) neighbors
           in argmin dist))"

section \<open>diameter_of_data\<close>

fun diameter_loop :: "metric \<Rightarrow> cloud \<Rightarrow> nat list \<Rightarrow> real \<Rightarrow> error + real" where
  "diameter_loop m points [] diameter = Inr diameter"
| "diameter_loop m points (i # rest) diameter =
     (let dist_to_neighbors = map (metric_dist m (points ! i)) (drop (i + 1) points) in
      case array_max dist_to_neighbors of
        Inl e \<Rightarrow> Inl e
      | Inr dist_to_farthest_neighbor \<Rightarrow>
          diameter_loop m points rest (max diameter (dist_to_farthest_neighbor * 2)))"

definition diameter_of_data :: "(nat \<Rightarrow> metric) \<Rightarrow> cloud \<Rightarrow> string option \<Rightarrow> error + real" where
  "diameter_of_data hs points space =
     (case select_metric hs ''The diameter function is not implemented for space ''
             ''. The spaces available are: '' space of
        Inl e \<Rightarrow> Inl e
      | Inr m \<Rightarrow>
          (let n_points = length points
           in diameter_loop m points [0..<n_points - 1] 0))"

section \<open>karcher_flow\<close>

text \<open>\<^verbatim>\<open>np.sum(tangent_vectors, axis=0)\<close> on an array of the cloud's shape: the
  column sums, one per coordinate.\<close>

definition dimension :: "cloud \<Rightarrow> nat" where
  "dimension points = (case points of [] \<Rightarrow> 0 | p # _ \<Rightarrow> length p)"

definition sum_axis0 :: "nat \<Rightarrow> real list list \<Rightarrow> real list" where
  "sum_axis0 d rows = map (\<lambda>j. sum_list (map (\<lambda>r. r ! j) rows)) [0..<d]"

definition karcher_step ::
  "metric \<Rightarrow> cloud \<Rightarrow> point \<times> real \<times> nat \<Rightarrow> point \<times> real \<times> nat" where
  "karcher_step m points st =
     (case st of (karcher_mean, gap, step) \<Rightarrow>
        let n_points = length points;
            tangent_vectors = map (\<lambda>p. metric_log m p karcher_mean) points;
            tan_vec_update = map (\<lambda>s. s / real n_points) (sum_axis0 (dimension points) tangent_vectors);
            karcher_mean_updated = metric_exp m tan_vec_update karcher_mean;
            gap' = metric_dist m karcher_mean karcher_mean_updated
        in (karcher_mean_updated, gap', step + 1))"

definition karcher_cond :: "real \<Rightarrow> point \<times> real \<times> nat \<Rightarrow> bool" where
  "karcher_cond tolerance st = (case st of (karcher_mean, gap, step) \<Rightarrow> gap > tolerance)"

text \<open>The loop has no iteration bound: a run that never leaves it is \<open>None\<close>.\<close>

definition karcher_loop ::
  "metric \<Rightarrow> cloud \<Rightarrow> real \<Rightarrow> point \<times> real \<times> nat \<Rightarrow> (point \<times> real \<times> nat) option" where
  "karcher_loop m points tolerance st =
     while_option (karcher_cond tolerance) (karcher_step m points) st"

definition karcher_flow ::
  "(nat \<Rightarrow> metric) \<Rightarrow> cloud \<Rightarrow> string option \<Rightarrow> real \<Rightarrow> rng
     \<Rightarrow> ((error + point \<times> nat) \<times> rng) option" where
  "karcher_flow hs points space tolerance g =
     (case select_metric hs ''The Karcher mean function is not implemented for space ''
             ''. The spaces available for Karcher flow are: '' space of
        Inl e \<Rightarrow> Some (Inl e, g)
      | Inr m \<Rightarrow>
          (case sample_from points 1 g of
             (Inl e, g') \<Rightarrow> Some (Inl e, g')
           | (Inr sample, g') \<Rightarrow>
               (case karcher_loop m points tolerance (hd sample, 1, 0) of
                  None \<Rightarrow> None
                | Some (karcher_mean, gap, step) \<Rightarrow> Some (Inr (karcher_mean, step), g'))))"

section \<open>optimal_quantization\<close>

text \<open>The state of the optimisation loop: the exception that left the loop (if any), the
  centers, the gap, the step counter and the random stream. The epoch length
  \<open>n_repetition\<close> is a natural number; \<^verbatim>\<open>step / n_repetition\<close> raises
  \<^verbatim>\<open>ZeroDivisionError\<close> when it is zero.\<close>

type_synonym qstate = "error option \<times> cloud \<times> real \<times> nat \<times> rng"

text \<open>\<^verbatim>\<open>gap = (gap != 0) * gap + (gap == 0)\<close>\<close>

definition substituted_gap :: "real \<Rightarrow> real" where
  "substituted_gap gap = of_bool (gap \<noteq> 0) * gap + of_bool (gap = 0)"

definition quantization_step ::
  "(nat \<Rightarrow> metric) \<Rightarrow> metric \<Rightarrow> cloud \<Rightarrow> string option \<Rightarrow> nat \<Rightarrow> qstate \<Rightarrow> qstate" where
  "quantization_step hs m points space n_repetition st =
     (case st of (err, centers, gap, step0, g) \<Rightarrow>
        let step = step0 + 1 in
        if n_repetition = 0 then (Some ZeroDivisionError, centers, gap, step, g)
        else
          let k = real_of_int \<lfloor>real step / real n_repetition\<rfloor> + 1 in
          case sample_from points 1 g of
            (Inl e, g') \<Rightarrow> (Some e, centers, gap, step, g')
          | (Inr sample, g') \<Rightarrow>
              (case closest_neighbor hs (hd sample) centers space of
                 Inl e \<Rightarrow> (Some e, centers, gap, step, g')
               | Inr index \<Rightarrow>
                   let center_to_update = centers ! index;
                       tan_vec_update =
                         map (\<lambda>x. x / (k + 1)) (metric_log m (hd sample) center_to_update);
                       new_center = metric_exp m tan_vec_update center_to_update;
                       raw_gap = metric_dist m center_to_update new_center;
                       gap' = substituted_gap raw_gap
                   in (None, list_update centers index new_center, gap', step, g')))"

definition quantization_cond :: "real \<Rightarrow> qstate \<Rightarrow> bool" where
  "quantization_cond tolerance st =
     (case st of (err, centers, gap, step, g) \<Rightarrow> err = None \<and> gap > tolerance)"

definition quantization_loop ::
  "(nat \<Rightarrow> metric) \<Rightarrow> metric \<Rightarrow> cloud \<Rightarrow> string option \<Rightarrow> nat \<Rightarrow> real \<Rightarrow> qstate
     \<Rightarrow> qstate option" where
  "quantization_loop hs m points space n_repetition tolerance st =
     while_option (quantization_cond tolerance)
       (quantization_step hs m points space n_repetition) st"

text \<open>The labelling pass \<^verbatim>\<open>for i, point in enumerate(points)\<close>. The labels, stored by
  the source in a float array, are kept as natural numbers. The counts that
  \<^verbatim>\<open>weights[index] += 1\<close> builds are whole numbers, which float64 holds exactly below
  \<^verbatim>\<open>2^53\<close>; \<^verbatim>\<open>weights / n_points\<close> then divides each count in float64.\<close>

fun labeling_loop ::
  "(nat \<Rightarrow> metric) \<Rightarrow> cloud \<Rightarrow> string option \<Rightarrow> (nat \<times> point) list \<Rightarrow> nat list \<Rightarrow> real list
     \<Rightarrow> error + nat list \<times> real list" where
  "labeling_loop hs centers space [] clustering weights = Inr (clustering, weights)"
| "labeling_loop hs centers space ((i, point) # rest) clustering weights =
     (case closest_neighbor hs point centers space of
        Inl e \<Rightarrow> Inl e
      | Inr index \<Rightarrow>
          if index < length weights \<and> i < length clustering
          then labeling_loop hs centers space rest
                 (list_update clustering i index)
                 (list_update weights index (weights ! index + 1))
          else Inl IndexError)"

definition optimal_quantization ::
  "(nat \<Rightarrow> metric) \<Rightarrow> cloud \<Rightarrow> nat \<Rightarrow> string option \<Rightarrow> nat \<Rightarrow> real \<Rightarrow> rng
     \<Rightarrow> ((error + cloud \<times> real list \<times> nat list \<times> nat) \<times> rng) option" where
  "optimal_quantization hs points n_centers space n_repetition tolerance g =
     (case select_metric hs ''The optimal quantization function is not implemented for space ''
             ''. The spaces available for quantization are: '' space of
        Inl e \<Rightarrow> Some (Inl e, g)
      | Inr m \<Rightarrow>
          (case sample_from points n_centers g of
             (Inl e, g') \<Rightarrow> Some (Inl e, g')
           | (Inr centers0, g') \<Rightarrow>
               (case quantization_loop hs m points space n_repetition tolerance
                       (None, centers0, 1, 0, g') of
                  None \<Rightarrow> None
                | Some (Some e, centers, gap, step, g'') \<Rightarrow> Some (Inl e, g'')
                | Some (None, centers, gap, step, g'') \<Rightarrow>
                    (let n_points = length points;
                         clustering = replicate n_points 0;
                         weights = replicate n_centers 0
                     in case labeling_loop hs centers space (enumerate 0 points)
                               clustering weights of
                          Inl e \<Rightarrow> Some (Inl e, g'')
                        | Inr (clustering', weights') \<Rightarrow>
                            Some (Inr (centers, map (\<lambda>w. float64 (w / real n_points)) weights',
                                       clustering', step), g'')))))"

section \<open>The two iterative operations on a heap of arrays\<close>

text \<open>
  The functions above compute with the values of the arrays. To follow which array an
  in-place assignment writes, the two iterative operations are given a second time on a
  heap: a list of array objects, an address being a position in it. Creating an array
  appends it to the heap; this is what \<^verbatim>\<open>np.zeros\<close>, advanced indexing and the
  results of the metric's operations do. \<^verbatim>\<open>a[i, :] = row\<close> replaces row \<open>i\<close> of the
  object at the address of \<open>a\<close>; \<^verbatim>\<open>x = y\<close> rebinds the name \<open>x\<close> to the address of
  \<open>y\<close>. The metric's operations are taken not to write to their arguments. The label and
  weight arrays, created and filled after the loop, are returned as values.
\<close>

type_synonym addr = nat
type_synonym heap = "cloud list"

definition alloc :: "heap \<Rightarrow> cloud \<Rightarrow> heap \<times> addr" where
  "alloc h a = (h @ [a], length h)"

definition set_row :: "heap \<Rightarrow> addr \<Rightarrow> nat \<Rightarrow> point \<Rightarrow> heap" where
  "set_row h a i row = list_update h a (list_update (h ! a) i row)"

definition sample_from_h :: "heap \<Rightarrow> addr \<Rightarrow> nat \<Rightarrow> rng \<Rightarrow> (error + addr) \<times> heap \<times> rng" where
  "sample_from_h h points sz g =
     (let n_points = length (h ! points) in
      case randint n_points sz g of
        (Inl e, g') \<Rightarrow> (Inl e, h, g')
      | (Inr index, g') \<Rightarrow>
          (case alloc h (map (\<lambda>i. (h ! points) ! i) index) of
             (h', sample) \<Rightarrow> (Inr sample, h', g')))"

type_synonym kstate_h = "heap \<times> addr \<times> real \<times> nat"

definition karcher_step_h :: "metric \<Rightarrow> addr \<Rightarrow> kstate_h \<Rightarrow> kstate_h" where
  "karcher_step_h m points st =
     (case st of (h, karcher_mean, gap, step) \<Rightarrow>
        let n_points = length (h ! points) in
        case alloc h (replicate n_points (replicate (dimension (h ! points)) 0)) of
          (h1, tangent_vectors) \<Rightarrow>
            let h2 = fold (\<lambda>i h'. set_row h' tangent_vectors i
                                    (metric_log m ((h' ! points) ! i) (hd (h' ! karcher_mean))))
                       [0..<n_points] h1;
                tan_vec_update = map (\<lambda>s. s / real n_points)
                                   (sum_axis0 (dimension (h2 ! points)) (h2 ! tangent_vectors))
            in case alloc h2 [metric_exp m tan_vec_update (hd (h2 ! karcher_mean))] of
                 (h3, karcher_mean_updated) \<Rightarrow>
                   let gap' = metric_dist m (hd (h3 ! karcher_mean))
                                (hd (h3 ! karcher_mean_updated))
                   in (h3, karcher_mean_updated, gap', step + 1))"

definition karcher_cond_h :: "real \<Rightarrow> kstate_h \<Rightarrow> bool" where
  "karcher_cond_h tolerance st = (case st of (h, karcher_mean, gap, step) \<Rightarrow> gap > tolerance)"

definition karcher_flow_h ::
  "(nat \<Rightarrow> metric) \<Rightarrow> heap \<Rightarrow> addr \<Rightarrow> string option \<Rightarrow> real \<Rightarrow> rng
     \<Rightarrow> ((error + addr \<times> nat) \<times> heap \<times> rng) option" where
  "karcher_flow_h hs h points space tolerance g =
     (case select_metric hs ''The Karcher mean function is not implemented for space ''
             ''. The spaces available for Karcher flow are: '' space of
        Inl e \<Rightarrow> Some (Inl e, h, g)
      | Inr m \<Rightarrow>
          (case sample_from_h h points 1 g of
             (Inl e, h', g') \<Rightarrow> Some (Inl e, h', g')
           | (Inr karcher_mean0, h', g') \<Rightarrow>
               (case while_option (karcher_cond_h tolerance) (karcher_step_h m points)
                       (h', karcher_mean0, 1, 0) of
                  None \<Rightarrow> None
                | Some (h'', karcher_mean, gap, step) \<Rightarrow>
                    Some (Inr (karcher_mean, step), h'', g'))))"

type_synonym qstate_h = "error option \<times> heap \<times> addr \<times> real \<times> nat \<times> rng"

definition quantization_step_h ::
  "(nat \<Rightarrow> metric) \<Rightarrow> metric \<Rightarrow> addr \<Rightarrow> string option \<Rightarrow> nat \<Rightarrow> qstate_h \<Rightarrow> qstate_h" where
  "quantization_step_h hs m points space n_repetition st =
     (case st of (err, h, centers, gap, step0, g) \<Rightarrow>
        let step = step0 + 1 in
        if n_repetition = 0 then (Some ZeroDivisionError, h, centers, gap, step, g)
        else
          let k = real_of_int \<lfloor>real step / real n_repetition\<rfloor> + 1 in
          case sample_from_h h points 1 g of
            (Inl e, h1, g') \<Rightarrow> (Some e, h1, centers, gap, step, g')
          | (Inr sample, h1, g') \<Rightarrow>
              (case closest_neighbor hs (hd (h1 ! sample)) (h1 ! centers) space of
                 Inl e \<Rightarrow> (Some e, h1, centers, gap, step, g')
               | Inr index \<Rightarrow>
                   let center_to_update = (h1 ! centers) ! index;
                       tan_vec_update =
                         map (\<lambda>x. x / (k + 1))
                           (metric_log m (hd (h1 ! sample)) center_to_update);
                       new_center = metric_exp m tan_vec_update center_to_update;
                       raw_gap = metric_dist m center_to_update new_center;
                       gap' = substituted_gap raw_gap;
                       h2 = set_row h1 centers index new_center
                   in (None, h2, centers, gap', step, g')))"

definition quantization_cond_h :: "real \<Rightarrow> qstate_h \<Rightarrow> bool" where
  "quantization_cond_h tolerance st =
     (case st of (err, h, centers, gap, step, g) \<Rightarrow> err = None \<and> gap > tolerance)"

definition optimal_quantization_h ::
  "(nat \<Rightarrow> metric) \<Rightarrow> heap \<Rightarrow> addr \<Rightarrow> nat \<Rightarrow> string option \<Rightarrow> nat \<Rightarrow> real \<Rightarrow> rng
     \<Rightarrow> ((error + addr \<times> real list \<times> nat list \<times> nat) \<times> heap \<times> rng) option" where
  "optimal_quantization_h hs h points n_centers space n_repetition tolerance g =
     (case select_metric hs ''The optimal quantization function is not implemented for space ''
             ''. The spaces available for quantization are: '' space of
        Inl e \<Rightarrow> Some (Inl e, h, g)
      | Inr m \<Rightarrow>
          (case sample_from_h h points n_centers g of
             (Inl e, h', g') \<Rightarrow> Some (Inl e, h', g')
           | (Inr centers0, h', g') \<Rightarrow>
               (case while_option (quantization_cond_h tolerance)
                       (quantization_step_h hs m points space n_repetition)
                       (None, h', centers0, 1, 0, g') of
                  None \<Rightarrow> None
                | Some (Some e, h'', centers, gap, step, g'') \<Rightarrow> Some (Inl e, h'', g'')
                | Some (None, h'', centers, gap, step, g'') \<Rightarrow>
                    (let n_points = length (h'' ! points);
                         clustering = replicate n_points 0;
                         weights = replicate n_centers 0
                     in case labeling_loop hs (h'' ! centers) space
                               (enumerate 0 (h'' ! points)) clustering weights of
                          Inl e \<Rightarrow> Some (Inl e, h'', g'')
                        | Inr (clustering', weights') \<Rightarrow>
                            Some (Inr (centers, map (\<lambda>w. float64 (w / real n_points)) weights',
                                       clustering', step), h'', g'')))))"

section \<open>Auxiliary definitions for the statements\<close>

text \<open>The metric chosen by the \<^verbatim>\<open>elif space == 'S1': ... else: ...\<close> branches for a
  supported space.\<close>

definition space_metric :: "(nat \<Rightarrow> metric) \<Rightarrow> string option \<Rightarrow> metric" where
  "space_metric hs space = (if space = Some ''S1'' then hs 1 else hs 2)"

text \<open>A concrete metric on which the operations can be run: coordinate vectors with the
  sum of the absolute coordinate differences as distance, and vector addition and
  subtraction as exponential and logarithm. The theorems below hold for every metric; this
  one only serves to evaluate them on concrete inputs.\<close>

definition flat_metric :: metric where
  "flat_metric =
     \<lparr> metric_dist = (\<lambda>p q. sum_list (map2 (\<lambda>a b. \<bar>a - b\<bar>) p q)),
       metric_exp = (\<lambda>v q. map2 (\<lambda>a b. a + b) v q),
       metric_log = (\<lambda>p q. map2 (\<lambda>a b. a - b) p q) \<rparr>"

definition flat_hs :: "nat \<Rightarrow> metric" where
  "flat_hs d = flat_metric"

text \<open>The index that closest_neighbor returns, with 0 where it raises.\<close>

definition label_of :: "(nat \<Rightarrow> metric) \<Rightarrow> cloud \<Rightarrow> string option \<Rightarrow> point \<Rightarrow> nat" where
  "label_of hs centers space p =
     (case closest_neighbor hs p centers space of Inl e \<Rightarrow> 0 | Inr index \<Rightarrow> index)"

text \<open>The values that a state of the heap-level loops holds: the array at the address
  of the centers, and the single row of the array at the address of the current mean.\<close>

definition centers_value :: "qstate_h \<Rightarrow> qstate" where
  "centers_value st = (case st of (err, h, centers, gap, step, g) \<Rightarrow> (err, h ! centers, gap, step, g))"

definition mean_value :: "kstate_h \<Rightarrow> point \<times> real \<times> nat" where
  "mean_value st = (case st of (h, karcher_mean, gap, step) \<Rightarrow> (hd (h ! karcher_mean), gap, step))"

section \<open>Rounding to float64\<close>

lemma round_half_even_error: "\<bar>of_int (round_half_even y) - y\<bar> \<le> 1 / 2"
  unfolding round_half_even_def Let_def by (auto simp: abs_le_iff)

lemma round_half_even_nonneg: "0 \<le> y \<Longrightarrow> 0 \<le> round_half_even y"
  unfolding round_half_even_def Let_def by auto

lemma scale_up_spec:
  assumes "scale_up y k = (y', k')" and "0 \<le> y"
  shows "k \<le> k' \<and> y' = y * 2 ^ (k' - k) \<and> (y' < 2 ^ 52 \<longrightarrow> y = 0 \<or> 1074 \<le> k')"
  using assms
proof (induction y k rule: scale_up.induct)
  case (1 y k)
  show ?case
  proof (cases "0 < y \<and> y < 2 ^ 52 \<and> k < 1074")
    case True
    have "scale_up y k = scale_up (2 * y) (k + 1)"
      by (subst scale_up.simps) (rule if_P [OF True])
    then have rec: "scale_up (2 * y) (k + 1) = (y', k')"
      using "1.prems"(1) by simp
    have IH: "k + 1 \<le> k' \<and> y' = (2 * y) * 2 ^ (k' - (k + 1))
                \<and> (y' < 2 ^ 52 \<longrightarrow> 2 * y = 0 \<or> 1074 \<le> k')"
      using "1.IH" [OF True rec] "1.prems"(2) by simp
    then have le: "k + 1 \<le> k'" by simp
    then have "k' - k = Suc (k' - (k + 1))" by simp
    then have "y * 2 ^ (k' - k) = (2 * y) * 2 ^ (k' - (k + 1))" by simp
    then show ?thesis using IH by auto
  next
    case False
    have "scale_up y k = (y, k)"
      by (subst scale_up.simps) (rule if_not_P [OF False])
    then have "y' = y" "k' = k" using "1.prems"(1) by simp_all
    then show ?thesis using False "1.prems"(2) by auto
  qed
qed

lemma float64_zero: "float64 0 = 0"
  by (simp add: float64_def scale_up.simps round_half_even_def)

lemma float64_one: "float64 1 = 1"
  by (simp add: float64_def scale_up.simps round_half_even_def)

lemma float64_third: "float64 (1 / 3) = 6004799503160661 / 18014398509481984"
  by (simp add: float64_def scale_up.simps round_half_even_def)

lemma float64_two_thirds: "float64 (2 / 3) = 6004799503160661 / 9007199254740992"
  by (simp add: float64_def scale_up.simps round_half_even_def)

lemma float64_tenth: "float64 (1 / 10) = 3602879701896397 / 36028797018963968"
  by (simp add: float64_def scale_up.simps round_half_even_def)

text \<open>Above \<^verbatim>\<open>2^53\<close> the float64 numbers are the multiples of 2, then of 4: an odd whole
  number lies half way between two of them and goes to the one with the even significand.\<close>

lemma float64_ties_to_even:
  "float64 (2 ^ 53 + 1) = 2 ^ 53" "float64 (2 ^ 53 + 3) = 2 ^ 53 + 4"
  "float64 (- (2 ^ 53 + 1)) = - (2 ^ 53)" "float64 (2 ^ 54 + 6) = 2 ^ 54 + 8"
  by (simp_all add: float64_def scale_down.simps round_half_even_def)

lemma float64_nonneg:
  assumes "0 \<le> x" and "x \<le> 1"
  shows "0 \<le> float64 x"
proof -
  obtain y k where s: "scale_up x 0 = (y, k)" by (cases "scale_up x 0") auto
  have y: "y = x * 2 ^ k" using scale_up_spec [OF s assms(1)] by simp
  then have "0 \<le> y" using assms(1) by simp
  then have "0 \<le> round_half_even y" by (rule round_half_even_nonneg)
  moreover have "\<bar>x\<bar> < 2 ^ 53" using assms by simp
  ultimately show ?thesis using assms(1) s by (simp add: float64_def sgn_if)
qed

lemma float64_error:
  assumes "0 \<le> x" and "x \<le> 1"
  shows "\<bar>float64 x - x\<bar> \<le> 1 / 2 ^ 54"
proof (cases "x = 0 \<or> x = 1")
  case True
  then show ?thesis using float64_zero float64_one by auto
next
  case False
  then have x: "0 < x" "x < 1" using assms by auto
  obtain y k where s: "scale_up x 0 = (y, k)" by (cases "scale_up x 0") auto
  have y: "y = x * 2 ^ k" and c: "y < 2 ^ 52 \<longrightarrow> x = 0 \<or> 1074 \<le> k"
    using scale_up_spec [OF s assms(1)] by simp_all
  have k: "53 \<le> k"
  proof (cases "y < 2 ^ 52")
    case True
    then show ?thesis using c x by simp
  next
    case False
    then have "(2::real) ^ 52 \<le> x * 2 ^ k" using y by simp
    also have "\<dots> < 1 * 2 ^ k" using x by (intro mult_strict_right_mono) simp_all
    finally have lt: "(2::real) ^ 52 < 2 ^ k" by simp
    have "52 < k" by (rule power_less_imp_less_exp [OF _ lt]) simp
    then show ?thesis by simp
  qed
  have f: "float64 x = of_int (round_half_even y) / 2 ^ k"
    using x s by (simp add: float64_def sgn_if)
  have "float64 x - x = (of_int (round_half_even y) - y) / 2 ^ k"
    unfolding f y by (simp add: field_simps)
  then have "\<bar>float64 x - x\<bar> = \<bar>of_int (round_half_even y) - y\<bar> / 2 ^ k"
    by (simp add: abs_divide)
  also have "\<dots> \<le> (1 / 2) / 2 ^ k"
    by (intro divide_right_mono round_half_even_error) simp
  also have "\<dots> \<le> (1 / 2) / 2 ^ 53"
    using k by (intro divide_left_mono power_increasing) simp_all
  finally show ?thesis by simp
qed

section \<open>The space check\<close>

lemma select_metric_unsupported:
  assumes "space \<noteq> Some ''S1''" and "space \<noteq> Some ''S2''"
  shows "select_metric hs pre mid space = Inl (not_implemented pre mid space)"
  using assms
  by (cases space) (auto simp: select_metric_def space_in_IMPLEMENTED_def IMPLEMENTED_def)

lemma select_metric_supported:
  assumes "space = Some ''S1'' \<or> space = Some ''S2''"
  shows "select_metric hs pre mid space = Inr (space_metric hs space)"
  using assms
  by (auto simp: select_metric_def space_in_IMPLEMENTED_def IMPLEMENTED_def space_metric_def)

lemma format_tuple_IMPLEMENTED: "format_tuple IMPLEMENTED = ''('S1', 'S2')''"
  by (simp add: format_tuple_def IMPLEMENTED_def py_repr_def)

lemma not_implemented_message:
  "not_implemented pre mid space
     = NotImplementedError
         (pre @ (case space of None \<Rightarrow> ''None'' | Some s \<Rightarrow> s) @ mid @ ''('S1', 'S2')'' @ ''.'')"
  by (simp add: not_implemented_def format_space_def format_tuple_IMPLEMENTED)

lemma sublist_requested: "sublist requested (pre @ requested @ rest)"
  by (rule sublist_appendI)

lemma sublist_catalog: "sublist cat (pre @ requested @ mid @ cat @ rest)"
  by (metis append.assoc sublist_appendI)

text \<open>
  C1. When the space argument is neither \<^verbatim>\<open>'S1'\<close> nor \<^verbatim>\<open>'S2'\<close>, each of
  closest_neighbor, diameter_of_data, karcher_flow and optimal_quantization raises
  NotImplementedError, whatever the other arguments are; the two sampling operations leave
  the random stream as they found it, so nothing was drawn before the raise. The message of
  each operation is its own sentence around the requested space, which is the string that
  was passed or \<^verbatim>\<open>None\<close> when none was, followed by the catalog
  \<^verbatim>\<open>('S1', 'S2')\<close>; so each message contains the requested space and the catalog.
\<close>

theorem unsupported_space_raises:
  assumes "space \<noteq> Some ''S1''" and "space \<noteq> Some ''S2''"
  shows "\<exists>requested m1 m2 m3 m4.
           requested = (case space of None \<Rightarrow> ''None'' | Some s \<Rightarrow> s)
         \<and> m1 = ''The closest neighbor function is not implemented for space '' @ requested
                  @ ''. The spaces available are: ('S1', 'S2').''
         \<and> m2 = ''The diameter function is not implemented for space '' @ requested
                  @ ''. The spaces available are: ('S1', 'S2').''
         \<and> m3 = ''The Karcher mean function is not implemented for space '' @ requested
                  @ ''. The spaces available for Karcher flow are: ('S1', 'S2').''
         \<and> m4 = ''The optimal quantization function is not implemented for space '' @ requested
                  @ ''. The spaces available for quantization are: ('S1', 'S2').''
         \<and> closest_neighbor hs point neighbors space = Inl (NotImplementedError m1)
         \<and> diameter_of_data hs points space = Inl (NotImplementedError m2)
         \<and> karcher_flow hs points space tolerance g = Some (Inl (NotImplementedError m3), g)
         \<and> optimal_quantization hs points n_centers space n_repetition tolerance g
             = Some (Inl (NotImplementedError m4), g)
         \<and> sublist requested m1 \<and> sublist ''('S1', 'S2')'' m1
         \<and> sublist requested m2 \<and> sublist ''('S1', 'S2')'' m2
         \<and> sublist requested m3 \<and> sublist ''('S1', 'S2')'' m3
         \<and> sublist requested m4 \<and> sublist ''('S1', 'S2')'' m4"
proof -
  note sel = select_metric_unsupported [OF assms]
  define requested where "requested = (case space of None \<Rightarrow> ''None'' | Some s \<Rightarrow> s)"
  define msg where
    "msg = (\<lambda>pre mid. pre @ requested @ mid @ ''('S1', 'S2')'' @ ''.'')"
  define m1 where "m1 = msg ''The closest neighbor function is not implemented for space ''
                          ''. The spaces available are: ''"
  define m2 where "m2 = msg ''The diameter function is not implemented for space ''
                          ''. The spaces available are: ''"
  define m3 where "m3 = msg ''The Karcher mean function is not implemented for space ''
                          ''. The spaces available for Karcher flow are: ''"
  define m4 where "m4 = msg ''The optimal quantization function is not implemented for space ''
                          ''. The spaces available for quantization are: ''"
  have raise: "not_implemented pre mid space = NotImplementedError (msg pre mid)" for pre mid
    by (simp add: not_implemented_message msg_def requested_def)
  have req: "sublist requested (msg pre mid)" for pre mid
    unfolding msg_def by (rule sublist_requested)
  have cat: "sublist ''('S1', 'S2')'' (msg pre mid)" for pre mid
    unfolding msg_def by (rule sublist_catalog)
  have t1: "m1 = ''The closest neighbor function is not implemented for space '' @ requested
                  @ ''. The spaces available are: ('S1', 'S2').''"
    by (simp add: m1_def msg_def)
  have t2: "m2 = ''The diameter function is not implemented for space '' @ requested
                  @ ''. The spaces available are: ('S1', 'S2').''"
    by (simp add: m2_def msg_def)
  have t3: "m3 = ''The Karcher mean function is not implemented for space '' @ requested
                  @ ''. The spaces available for Karcher flow are: ('S1', 'S2').''"
    by (simp add: m3_def msg_def)
  have t4: "m4 = ''The optimal quantization function is not implemented for space '' @ requested
                  @ ''. The spaces available for quantization are: ('S1', 'S2').''"
    by (simp add: m4_def msg_def)
  have r1: "closest_neighbor hs point neighbors space = Inl (NotImplementedError m1)"
    by (simp add: closest_neighbor_def sel raise m1_def)
  have r2: "diameter_of_data hs points space = Inl (NotImplementedError m2)"
    by (simp add: diameter_of_data_def sel raise m2_def)
  have r3: "karcher_flow hs points space tolerance g = Some (Inl (NotImplementedError m3), g)"
    by (simp add: karcher_flow_def sel raise m3_def)
  have r4: "optimal_quantization hs points n_centers space n_repetition tolerance g
             = Some (Inl (NotImplementedError m4), g)"
    by (simp add: optimal_quantization_def sel raise m4_def)
  have s1: "sublist requested m1" "sublist ''('S1', 'S2')'' m1"
    unfolding m1_def by (rule req cat)+
  have s2: "sublist requested m2" "sublist ''('S1', 'S2')'' m2"
    unfolding m2_def by (rule req cat)+
  have s3: "sublist requested m3" "sublist ''('S1', 'S2')'' m3"
    unfolding m3_def by (rule req cat)+
  have s4: "sublist requested m4" "sublist ''('S1', 'S2')'' m4"
    unfolding m4_def by (rule req cat)+
  show ?thesis
    by (intro exI [of _ requested] exI [of _ m1] exI [of _ m2] exI [of _ m3] exI [of _ m4]
        conjI requested_def t1 t2 t3 t4 r1 r2 r3 r4 s1 s2 s3 s4)
qed

text \<open>The request for a 3-sphere, and the request that names no space.\<close>

theorem unsupported_space_raises_witness:
  "Some ''S3'' \<noteq> Some ''S1'' \<and> Some ''S3'' \<noteq> Some ''S2''
   \<and> closest_neighbor flat_hs [0] [[1], [2]] (Some ''S3'')
       = Inl (NotImplementedError
           ''The closest neighbor function is not implemented for space S3. The spaces available are: ('S1', 'S2').'')
   \<and> diameter_of_data flat_hs [[1], [2]] (Some ''S3'')
       = Inl (NotImplementedError
           ''The diameter function is not implemented for space S3. The spaces available are: ('S1', 'S2').'')
   \<and> karcher_flow flat_hs [[1], [2]] (Some ''S3'') TOLERANCE (\<lambda>i. i)
       = Some (Inl (NotImplementedError
           ''The Karcher mean function is not implemented for space S3. The spaces available for Karcher flow are: ('S1', 'S2').''),
               \<lambda>i. i)
   \<and> optimal_quantization flat_hs [[1], [2]] 2 (Some ''S3'') 20 TOLERANCE (\<lambda>i. i)
       = Some (Inl (NotImplementedError
           ''The optimal quantization function is not implemented for space S3. The spaces available for quantization are: ('S1', 'S2').''),
               \<lambda>i. i)
   \<and> sublist ''S3''
        ''The closest neighbor function is not implemented for space S3. The spaces available are: ('S1', 'S2').''
   \<and> sublist ''('S1', 'S2')''
        ''The closest neighbor function is not implemented for space S3. The spaces available are: ('S1', 'S2').''
   \<and> None \<noteq> Some ''S1'' \<and> None \<noteq> Some ''S2''
   \<and> closest_neighbor flat_hs [0] [[1], [2]] None
       = Inl (NotImplementedError
           ''The closest neighbor function is not implemented for space None. The spaces available are: ('S1', 'S2').'')
   \<and> sublist ''None''
        ''The closest neighbor function is not implemented for space None. The spaces available are: ('S1', 'S2').''"
proof -
  have h1: "Some ''S3'' \<noteq> Some ''S1''" by simp
  have h2: "Some ''S3'' \<noteq> Some ''S2''" by simp
  have n1: "None \<noteq> Some ''S1''" by simp
  have n2: "None \<noteq> Some ''S2''" by simp
  note t = unsupported_space_raises [OF h1 h2, of flat_hs "[0]" "[[1], [2]]" "[[1], [2]]"
      TOLERANCE "\<lambda>i. i" 2 20]
  note u = unsupported_space_raises [OF n1 n2, of flat_hs "[0]" "[[1], [2]]" "[[1], [2]]"
      TOLERANCE "\<lambda>i. i" 2 20]
  have a: "closest_neighbor flat_hs [0] [[1], [2]] (Some ''S3'')
       = Inl (NotImplementedError
           ''The closest neighbor function is not implemented for space S3. The spaces available are: ('S1', 'S2').'')
   \<and> diameter_of_data flat_hs [[1], [2]] (Some ''S3'')
       = Inl (NotImplementedError
           ''The diameter function is not implemented for space S3. The spaces available are: ('S1', 'S2').'')
   \<and> karcher_flow flat_hs [[1], [2]] (Some ''S3'') TOLERANCE (\<lambda>i. i)
       = Some (Inl (NotImplementedError
           ''The Karcher mean function is not implemented for space S3. The spaces available for Karcher flow are: ('S1', 'S2').''),
               \<lambda>i. i)
   \<and> optimal_quantization flat_hs [[1], [2]] 2 (Some ''S3'') 20 TOLERANCE (\<lambda>i. i)
       = Some (Inl (NotImplementedError
           ''The optimal quantization function is not implemented for space S3. The spaces available for quantization are: ('S1', 'S2').''),
               \<lambda>i. i)
   \<and> sublist ''S3''
        ''The closest neighbor function is not implemented for space S3. The spaces available are: ('S1', 'S2').''
   \<and> sublist ''('S1', 'S2')''
        ''The closest neighbor function is not implemented for space S3. The spaces available are: ('S1', 'S2').''"
    using t by simp
  have b: "closest_neighbor flat_hs [0] [[1], [2]] None
       = Inl (NotImplementedError
           ''The closest neighbor function is not implemented for space None. The spaces available are: ('S1', 'S2').'')
   \<and> sublist ''None''
        ''The closest neighbor function is not implemented for space None. The spaces available are: ('S1', 'S2').''"
    using u by simp
  show ?thesis using h1 h2 n1 n2 a b by blast
qed

section \<open>closest_neighbor\<close>

lemma argmin_scan_spec:
  assumes "length pre = i" "best_i < i" "pre ! best_i = best"
    and "\<forall>j<i. best \<le> pre ! j" and "\<forall>j<best_i. best < pre ! j"
  shows "let r = argmin_scan xs i best_i best; ds = pre @ xs in
           r < length ds \<and> (\<forall>j<length ds. ds ! r \<le> ds ! j) \<and> (\<forall>j<r. ds ! r < ds ! j)"
  using assms
proof (induction xs arbitrary: pre i best_i best)
  case Nil
  then show ?case by (simp add: Let_def)
next
  case (Cons x xs)
  show ?case
  proof (cases "x < best")
    case True
    have "let r = argmin_scan xs (Suc i) i x; ds = (pre @ [x]) @ xs in
           r < length ds \<and> (\<forall>j<length ds. ds ! r \<le> ds ! j) \<and> (\<forall>j<r. ds ! r < ds ! j)"
    proof (rule Cons.IH)
      show "length (pre @ [x]) = Suc i" using Cons.prems by simp
      show "i < Suc i" by simp
      show "(pre @ [x]) ! i = x" using Cons.prems(1) by (auto simp: nth_append)
      show "\<forall>j<Suc i. x \<le> (pre @ [x]) ! j"
        using Cons.prems True by (auto simp: nth_append less_Suc_eq)
      show "\<forall>j<i. x < (pre @ [x]) ! j"
        using Cons.prems True by (auto simp: nth_append)
    qed
    then show ?thesis using True by simp
  next
    case False
    have "let r = argmin_scan xs (Suc i) best_i best; ds = (pre @ [x]) @ xs in
           r < length ds \<and> (\<forall>j<length ds. ds ! r \<le> ds ! j) \<and> (\<forall>j<r. ds ! r < ds ! j)"
    proof (rule Cons.IH)
      show "length (pre @ [x]) = Suc i" using Cons.prems by simp
      show "best_i < Suc i" using Cons.prems by simp
      show "(pre @ [x]) ! best_i = best" using Cons.prems by (simp add: nth_append)
      show "\<forall>j<Suc i. best \<le> (pre @ [x]) ! j"
        using Cons.prems False by (auto simp: nth_append less_Suc_eq)
      show "\<forall>j<best_i. best < (pre @ [x]) ! j"
        using Cons.prems by (auto simp: nth_append)
    qed
    then show ?thesis using False by simp
  qed
qed

lemma argmin_spec:
  assumes "ds \<noteq> []"
  shows "\<exists>r. argmin ds = Inr r \<and> r < length ds \<and> (\<forall>j<length ds. ds ! r \<le> ds ! j)
             \<and> (\<forall>j<r. ds ! r < ds ! j)"
proof -
  obtain x xs where ds: "ds = x # xs" using assms by (cases ds) auto
  have "let r = argmin_scan xs 1 0 x; ds' = [x] @ xs in
           r < length ds' \<and> (\<forall>j<length ds'. ds' ! r \<le> ds' ! j) \<and> (\<forall>j<r. ds' ! r < ds' ! j)"
    by (rule argmin_scan_spec) auto
  then show ?thesis by (simp add: argmin_def ds Let_def)
qed

lemma closest_neighbor_supported:
  assumes "space = Some ''S1'' \<or> space = Some ''S2''"
  shows "closest_neighbor hs point neighbors space
           = argmin (map (metric_dist (space_metric hs space) point) neighbors)"
  by (simp add: closest_neighbor_def select_metric_supported [OF assms])

text \<open>
  C6. For a non-empty candidate set and a supported space, closest_neighbor returns an index
  \<open>i\<close> of a candidate at least distance from the point, every candidate before \<open>i\<close> is
  strictly farther, and \<open>i\<close> is the only index with these two properties: the result is
  the first minimal index and is determined by the inputs.
\<close>

theorem closest_neighbor_first_minimal:
  assumes "neighbors \<noteq> []" and "space = Some ''S1'' \<or> space = Some ''S2''"
  shows "let d = metric_dist (space_metric hs space) point in
         \<exists>i. closest_neighbor hs point neighbors space = Inr i
           \<and> i < length neighbors
           \<and> (\<forall>j<length neighbors. d (neighbors ! i) \<le> d (neighbors ! j))
           \<and> (\<forall>j<i. d (neighbors ! i) < d (neighbors ! j))
           \<and> (\<forall>i'<length neighbors.
                 (\<forall>j<length neighbors. d (neighbors ! i') \<le> d (neighbors ! j))
                 \<and> (\<forall>j<i'. d (neighbors ! i') < d (neighbors ! j)) \<longrightarrow> i' = i)"
proof -
  define d where "d = metric_dist (space_metric hs space) point"
  let ?ds = "map d neighbors"
  have "?ds \<noteq> []" using assms(1) by simp
  then obtain r where r: "argmin ?ds = Inr r" "r < length ?ds"
     "\<forall>j<length ?ds. ?ds ! r \<le> ?ds ! j" "\<forall>j<r. ?ds ! r < ?ds ! j"
    using argmin_spec by blast
  have cn: "closest_neighbor hs point neighbors space = Inr r"
    using r(1) by (simp add: closest_neighbor_supported [OF assms(2)] d_def)
  have len: "r < length neighbors" using r(2) by simp
  have le: "\<forall>j<length neighbors. d (neighbors ! r) \<le> d (neighbors ! j)"
    using r(3) len by simp
  have lt: "\<forall>j<r. d (neighbors ! r) < d (neighbors ! j)"
    using r(4) len by simp
  have uniq: "i' = r" if "i' < length neighbors"
     "\<forall>j<length neighbors. d (neighbors ! i') \<le> d (neighbors ! j)"
     "\<forall>j<i'. d (neighbors ! i') < d (neighbors ! j)" for i'
  proof (rule ccontr)
    assume "i' \<noteq> r"
    then consider "i' < r" | "r < i'" by linarith
    then show False
    proof cases
      case 1
      then have "d (neighbors ! r) < d (neighbors ! i')" using lt by blast
      moreover have "d (neighbors ! i') \<le> d (neighbors ! r)" using that(2) len by blast
      ultimately show False by simp
    next
      case 2
      then have "d (neighbors ! i') < d (neighbors ! r)" using that(3) by blast
      moreover have "d (neighbors ! r) \<le> d (neighbors ! i')" using le that(1) by blast
      ultimately show False by simp
    qed
  qed
  have "\<exists>i. closest_neighbor hs point neighbors space = Inr i
           \<and> i < length neighbors
           \<and> (\<forall>j<length neighbors. d (neighbors ! i) \<le> d (neighbors ! j))
           \<and> (\<forall>j<i. d (neighbors ! i) < d (neighbors ! j))
           \<and> (\<forall>i'<length neighbors.
                 (\<forall>j<length neighbors. d (neighbors ! i') \<le> d (neighbors ! j))
                 \<and> (\<forall>j<i'. d (neighbors ! i') < d (neighbors ! j)) \<longrightarrow> i' = i)"
    using cn len le lt uniq by blast
  then show ?thesis unfolding d_def Let_def .
qed

theorem closest_neighbor_first_minimal_witness:
  "[[2], [1], [1::real]] \<noteq> [] \<and> (Some ''S1'' = Some ''S1'' \<or> Some ''S1'' = Some ''S2'') \<and>
   closest_neighbor flat_hs [0] [[2], [1], [1]] (Some ''S1'') = Inr 1 \<and>
   (let d = metric_dist (space_metric flat_hs (Some ''S1'')) [0] in
    \<exists>i. closest_neighbor flat_hs [0] [[2], [1], [1]] (Some ''S1'') = Inr i
      \<and> i < length [[2], [1], [1::real]]
      \<and> (\<forall>j<length [[2], [1], [1::real]]. d ([[2], [1], [1]] ! i) \<le> d ([[2], [1], [1]] ! j))
      \<and> (\<forall>j<i. d ([[2], [1], [1]] ! i) < d ([[2], [1], [1]] ! j))
      \<and> (\<forall>i'<length [[2], [1], [1::real]].
            (\<forall>j<length [[2], [1], [1::real]]. d ([[2], [1], [1]] ! i') \<le> d ([[2], [1], [1]] ! j))
            \<and> (\<forall>j<i'. d ([[2], [1], [1]] ! i') < d ([[2], [1], [1]] ! j)) \<longrightarrow> i' = i))"
proof -
  have h1: "[[2], [1], [1::real]] \<noteq> []" by simp
  have h2: "Some ''S1'' = Some ''S1'' \<or> Some ''S1'' = Some ''S2''" by simp
  have run: "closest_neighbor flat_hs [0] [[2], [1], [1]] (Some ''S1'') = Inr 1"
    by (simp add: closest_neighbor_def select_metric_def space_in_IMPLEMENTED_def
        IMPLEMENTED_def flat_hs_def flat_metric_def argmin_def)
  show ?thesis
    using h1 h2 run closest_neighbor_first_minimal [OF h1 h2, of flat_hs "[0]"]
    by blast
qed

section \<open>Loops\<close>

lemma while_option_Some_iff:
  "while_option b c s = Some t \<longleftrightarrow>
     (\<exists>n. \<not> b ((c ^^ n) s) \<and> (\<forall>k<n. b ((c ^^ k) s)) \<and> t = (c ^^ n) s)"
proof
  assume a: "while_option b c s = Some t"
  then have ex: "\<exists>k. \<not> b ((c ^^ k) s)"
    by (auto simp: while_option_def split: if_splits)
  define n where "n = (LEAST k. \<not> b ((c ^^ k) s))"
  have "\<not> b ((c ^^ n) s)" unfolding n_def using ex by (rule LeastI_ex)
  moreover have "\<forall>k<n. b ((c ^^ k) s)" unfolding n_def using not_less_Least by blast
  moreover have "t = (c ^^ n) s" using a ex by (simp add: while_option_def n_def)
  ultimately show "\<exists>n. \<not> b ((c ^^ n) s) \<and> (\<forall>k<n. b ((c ^^ k) s)) \<and> t = (c ^^ n) s"
    by blast
next
  assume "\<exists>n. \<not> b ((c ^^ n) s) \<and> (\<forall>k<n. b ((c ^^ k) s)) \<and> t = (c ^^ n) s"
  then obtain n where n: "\<not> b ((c ^^ n) s)" "\<forall>k<n. b ((c ^^ k) s)" "t = (c ^^ n) s"
    by blast
  have "(LEAST k. \<not> b ((c ^^ k) s)) = n"
  proof (rule Least_equality)
    show "\<not> b ((c ^^ n) s)" by (rule n(1))
    fix y assume "\<not> b ((c ^^ y) s)"
    then show "n \<le> y" using n(2) by (meson not_le)
  qed
  then show "while_option b c s = Some t"
    using n(1,3) by (auto simp: while_option_def)
qed

lemma while_option_None_iff:
  "while_option b c s = None \<longleftrightarrow> (\<forall>k. b ((c ^^ k) s))"
  by (simp add: while_option_def)

section \<open>sample_from\<close>

lemma sample_from_nonempty:
  assumes "points \<noteq> []"
  shows "sample_from points sz g
           = (Inr (map (\<lambda>i. points ! (g i mod length points)) [0..<sz]), \<lambda>i. g (i + sz))"
  using assms by (simp add: sample_from_def randint_def Let_def)

lemma sample_from_one:
  assumes "points \<noteq> []"
  shows "sample_from points (Suc 0) g
           = (Inr [points ! (g 0 mod length points)], \<lambda>i. g (Suc i))"
  using assms by (simp add: sample_from_nonempty)

lemma sample_from_empty:
  assumes "0 < sz"
  shows "sample_from [] sz g = (Inl ValueError, g)"
  using assms by (simp add: sample_from_def randint_def)

section \<open>karcher_flow\<close>

lemma karcher_step_counter:
  "snd (snd (karcher_step m points st)) = snd (snd st) + 1"
  by (cases st) (simp add: karcher_step_def Let_def)

lemma karcher_step_count:
  "snd (snd ((karcher_step m points ^^ n) st)) = snd (snd st) + n"
  by (induction n) (simp_all add: karcher_step_counter)

lemma dimension_nonempty:
  assumes "points \<noteq> []"
  shows "dimension points = length (hd points)"
  using assms by (cases points) (simp_all add: dimension_def)

text \<open>
  C3. On a non-empty cloud, one iteration of karcher_flow takes the mean estimate \<open>km\<close> to
  the exponential at \<open>km\<close> of the average of the tangent vectors \<open>log(p, km)\<close> over all
  points \<open>p\<close> of the cloud, taken coordinate by coordinate over the coordinates of a point,
  sets the gap to the distance between the old and the new estimate, and adds one to the step
  counter. The flow returns exactly when some iterate has a gap at most the tolerance: the
  result is the estimate of the first such iterate with the number of iterations made, and
  the flow never returns when every iterate has a gap above the tolerance.
\<close>

theorem karcher_flow_iteration:
  assumes "points \<noteq> []" and "space = Some ''S1'' \<or> space = Some ''S2''"
  shows "let m = space_metric hs space;
             N = length points;
             avg = (\<lambda>km. map (\<lambda>j. (\<Sum>p\<leftarrow>points. metric_log m p km ! j) / real N)
                          [0..<length (hd points)]);
             it = (\<lambda>n. (karcher_step m points ^^ n) (points ! (g 0 mod N), 1, 0))
         in (\<forall>km gap step.
               karcher_step m points (km, gap, step)
                 = (metric_exp m (avg km) km, metric_dist m km (metric_exp m (avg km) km),
                    step + 1))
          \<and> (\<forall>r. karcher_flow hs points space tolerance g = Some r \<longleftrightarrow>
                 (\<exists>n. fst (snd (it n)) \<le> tolerance \<and> (\<forall>k<n. fst (snd (it k)) > tolerance)
                      \<and> r = (Inr (fst (it n), n), \<lambda>i. g (Suc i))))
          \<and> (karcher_flow hs points space tolerance g = None \<longleftrightarrow>
                 (\<forall>k. fst (snd (it k)) > tolerance))"
proof -
  define m where "m = space_metric hs space"
  define N where "N = length points"
  define avg where "avg = (\<lambda>km. map (\<lambda>j. (\<Sum>p\<leftarrow>points. metric_log m p km ! j) / real N)
                          [0..<length (hd points)])"
  define init where "init = (points ! (g 0 mod N), 1::real, 0::nat)"
  define it where "it = (\<lambda>n. (karcher_step m points ^^ n) init)"
  have step: "karcher_step m points (km, gap, step)
                 = (metric_exp m (avg km) km, metric_dist m km (metric_exp m (avg km) km),
                    step + 1)" for km gap step
    by (simp add: karcher_step_def Let_def avg_def sum_axis0_def N_def comp_def
        dimension_nonempty [OF assms(1)])
  have cond: "karcher_cond tolerance st \<longleftrightarrow> fst (snd st) > tolerance" for st
    by (cases st) (simp add: karcher_cond_def)
  have cnt: "snd (snd (it n)) = n" for n
    unfolding it_def init_def by (simp add: karcher_step_count)
  have flow: "karcher_flow hs points space tolerance g =
        (case karcher_loop m points tolerance init of
           None \<Rightarrow> None
         | Some (karcher_mean, gap, step) \<Rightarrow> Some (Inr (karcher_mean, step), \<lambda>i. g (Suc i)))"
    by (simp add: karcher_flow_def select_metric_supported [OF assms(2)] m_def
        sample_from_one [OF assms(1)] init_def N_def)
  have some: "karcher_flow hs points space tolerance g = Some r \<longleftrightarrow>
                 (\<exists>n. fst (snd (it n)) \<le> tolerance \<and> (\<forall>k<n. fst (snd (it k)) > tolerance)
                      \<and> r = (Inr (fst (it n), n), \<lambda>i. g (Suc i)))" for r
  proof
    assume "karcher_flow hs points space tolerance g = Some r"
    then obtain km gp st where
      lp: "karcher_loop m points tolerance init = Some (km, gp, st)"
      and r: "r = (Inr (km, st), \<lambda>i. g (Suc i))"
      unfolding flow by (auto split: option.splits)
    from lp obtain n where n: "\<not> karcher_cond tolerance (it n)"
      "\<forall>k<n. karcher_cond tolerance (it k)" "(km, gp, st) = it n"
      unfolding karcher_loop_def while_option_Some_iff it_def by blast
    have "st = n" using cnt [of n] n(3) [symmetric] by simp
    moreover have "km = fst (it n)" using n(3) [symmetric] by simp
    ultimately show "\<exists>n. fst (snd (it n)) \<le> tolerance \<and> (\<forall>k<n. fst (snd (it k)) > tolerance)
                      \<and> r = (Inr (fst (it n), n), \<lambda>i. g (Suc i))"
      using n(1,2) r unfolding cond by (intro exI [of _ n]) auto
  next
    assume "\<exists>n. fst (snd (it n)) \<le> tolerance \<and> (\<forall>k<n. fst (snd (it k)) > tolerance)
                      \<and> r = (Inr (fst (it n), n), \<lambda>i. g (Suc i))"
    then obtain n where n: "fst (snd (it n)) \<le> tolerance" "\<forall>k<n. fst (snd (it k)) > tolerance"
      "r = (Inr (fst (it n), n), \<lambda>i. g (Suc i))" by blast
    have "karcher_loop m points tolerance init = Some (it n)"
      unfolding karcher_loop_def while_option_Some_iff
      using n(1,2) by (intro exI [of _ n]) (auto simp: cond it_def)
    moreover have "it n = (fst (it n), fst (snd (it n)), n)"
      using cnt [of n] by (cases "it n") auto
    ultimately have lp: "karcher_loop m points tolerance init
                           = Some (fst (it n), fst (snd (it n)), n)"
      by simp
    show "karcher_flow hs points space tolerance g = Some r"
      unfolding flow n(3) by (simp add: lp)
  qed
  have none: "karcher_flow hs points space tolerance g = None \<longleftrightarrow>
                 (\<forall>k. fst (snd (it k)) > tolerance)"
  proof -
    have "karcher_flow hs points space tolerance g = None \<longleftrightarrow>
            karcher_loop m points tolerance init = None"
      unfolding flow by (auto split: option.splits)
    then show ?thesis
      by (simp add: karcher_loop_def while_option_None_iff cond it_def)
  qed
  note step' = step [unfolded avg_def N_def m_def]
  note some' = some [unfolded it_def init_def N_def m_def]
  note none' = none [unfolded it_def init_def N_def m_def]
  show ?thesis
    unfolding Let_def by (intro conjI allI) (rule step' some' none')+
qed

text \<open>Two points of the circle, given by two coordinates each. The first iteration goes from
  the drawn point \<open>(1, 0)\<close> to the average \<open>(1/2, 1/2)\<close> with gap 1, the second stays there
  with gap 0.\<close>

theorem karcher_flow_iteration_witness:
  "[[1, 0], [0, 1::real]] \<noteq> [] \<and> (Some ''S1'' = Some ''S1'' \<or> Some ''S1'' = Some ''S2'') \<and>
   karcher_step (space_metric flat_hs (Some ''S1'')) [[1, 0], [0, 1]] ([1, 0], 1, 0)
     = ([1 / 2, 1 / 2], 1, 1) \<and>
   karcher_step (space_metric flat_hs (Some ''S1'')) [[1, 0], [0, 1]] ([1 / 2, 1 / 2], 1, 1)
     = ([1 / 2, 1 / 2], 0, 2) \<and>
   karcher_flow flat_hs [[1, 0], [0, 1]] (Some ''S1'') (1 / 2) (\<lambda>i. 0)
     = Some (Inr ([1 / 2, 1 / 2], 2), \<lambda>i. 0) \<and>
   (let m = space_metric flat_hs (Some ''S1'');
             N = length [[1, 0], [0, 1::real]];
             avg = (\<lambda>km. map (\<lambda>j. (\<Sum>p\<leftarrow>[[1, 0], [0, 1::real]]. metric_log m p km ! j) / real N)
                          [0..<length (hd [[1, 0], [0, 1::real]])]);
             it = (\<lambda>n. (karcher_step m [[1, 0], [0, 1::real]] ^^ n) ([[1, 0], [0, 1::real]] ! ((\<lambda>i. 0) 0 mod N), 1, 0))
         in (\<forall>km gap step.
               karcher_step m [[1, 0], [0, 1::real]] (km, gap, step)
                 = (metric_exp m (avg km) km, metric_dist m km (metric_exp m (avg km) km),
                    step + 1))
          \<and> (\<forall>r. karcher_flow flat_hs [[1, 0], [0, 1::real]] (Some ''S1'') (1 / 2) (\<lambda>i. 0) = Some r \<longleftrightarrow>
                 (\<exists>n. fst (snd (it n)) \<le> (1 / 2) \<and> (\<forall>k<n. fst (snd (it k)) > (1 / 2))
                      \<and> r = (Inr (fst (it n), n), \<lambda>i. (\<lambda>i. 0) (Suc i))))
          \<and> (karcher_flow flat_hs [[1, 0], [0, 1::real]] (Some ''S1'') (1 / 2) (\<lambda>i. 0) = None \<longleftrightarrow>
                 (\<forall>k. fst (snd (it k)) > (1 / 2))))"
proof -
  have h1: "[[1, 0], [0, 1::real]] \<noteq> []" by simp
  have h2: "Some ''S1'' = Some ''S1'' \<or> Some ''S1'' = Some ''S2''" by simp
  note t = karcher_flow_iteration [OF h1 h2, where hs = flat_hs and g = "\<lambda>i. 0"
      and tolerance = "1 / 2"]
  note st = t [unfolded Let_def, THEN conjunct1, rule_format]
  have s1: "karcher_step (space_metric flat_hs (Some ''S1'')) [[1, 0], [0, 1]] ([1, 0], 1, 0)
              = ([1 / 2, 1 / 2], 1, 1)"
    unfolding st
    by (simp add: space_metric_def flat_hs_def flat_metric_def eval_nat_numeral)
  have s2: "karcher_step (space_metric flat_hs (Some ''S1'')) [[1, 0], [0, 1]]
              ([1 / 2, 1 / 2], 1, 1) = ([1 / 2, 1 / 2], 0, 2)"
    unfolding st
    by (simp add: space_metric_def flat_hs_def flat_metric_def eval_nat_numeral)
  have run: "karcher_flow flat_hs [[1, 0], [0, 1]] (Some ''S1'') (1 / 2) (\<lambda>i. 0)
               = Some (Inr ([1 / 2, 1 / 2], 2), \<lambda>i. 0)"
    by (simp add: karcher_flow_def select_metric_def space_in_IMPLEMENTED_def
        IMPLEMENTED_def sample_from_def randint_def karcher_loop_def while_option_unfold
        karcher_cond_def karcher_step_def sum_axis0_def dimension_def
        flat_hs_def flat_metric_def Let_def eval_nat_numeral)
  show ?thesis by (intro conjI h1 h2 s1 s2 run t)
qed

section \<open>optimal_quantization: the optimisation loop\<close>

lemma closest_neighbor_label:
  assumes "centers \<noteq> []" and "space = Some ''S1'' \<or> space = Some ''S2''"
  shows "closest_neighbor hs p centers space = Inr (label_of hs centers space p)
         \<and> label_of hs centers space p < length centers"
proof -
  have "map (metric_dist (space_metric hs space) p) centers \<noteq> []" using assms(1) by simp
  then obtain r where "argmin (map (metric_dist (space_metric hs space) p) centers) = Inr r"
    and "r < length (map (metric_dist (space_metric hs space) p) centers)"
    using argmin_spec by blast
  then show ?thesis
    by (simp add: label_of_def closest_neighbor_supported [OF assms(2)])
qed



lemma quantization_step_length:
  "length (fst (snd (quantization_step hs m points space n_repetition st)))
     = length (fst (snd st))"
  by (cases st)
     (auto simp: quantization_step_def Let_def split: prod.splits sum.splits)

lemma quantization_loop_length:
  assumes "quantization_loop hs m points space n_repetition tolerance st = Some t"
  shows "length (fst (snd t)) = length (fst (snd st))"
proof -
  have "length (fst (snd t)) = length (fst (snd st))"
  proof (rule while_option_rule [where P = "\<lambda>s. length (fst (snd s)) = length (fst (snd st))"])
    show "while_option (quantization_cond tolerance)
            (quantization_step hs m points space n_repetition) st = Some t"
      using assms by (simp add: quantization_loop_def)
    show "length (fst (snd st)) = length (fst (snd st))" by simp
  next
    fix s :: qstate
    assume "length (fst (snd s)) = length (fst (snd st))"
    then show "length (fst (snd (quantization_step hs m points space n_repetition s)))
                 = length (fst (snd st))"
      by (simp add: quantization_step_length)
  qed
  then show ?thesis .
qed

lemma quantization_loop_stop:
  assumes "\<not> quantization_cond tolerance st"
  shows "quantization_loop hs m points space n_repetition tolerance st = Some st"
  using assms by (simp add: quantization_loop_def while_option_unfold)




section \<open>optimal_quantization: the labelling pass and the weights\<close>

lemma labeling_loop_spec:
  assumes "centers \<noteq> []" and "space = Some ''S1'' \<or> space = Some ''S2''"
    and "length w = length centers" and "k + length ps \<le> length cl"
  shows "labeling_loop hs centers space (enumerate k ps) cl w
           = Inr (take k cl @ map (label_of hs centers space) ps @ drop (k + length ps) cl,
                  map (\<lambda>c. w ! c + real (count_list (map (label_of hs centers space) ps) c))
                      [0..<length w])"
  using assms(3,4)
proof (induction ps arbitrary: k cl w)
  case Nil
  show ?case by (simp add: map_nth)
next
  case (Cons p ps)
  define l where "l = label_of hs centers space p"
  have cn: "closest_neighbor hs p centers space = Inr l" and l: "l < length w"
    using closest_neighbor_label [OF assms(1,2), of hs p] Cons.prems(1) by (simp_all add: l_def)
  have k: "k < length cl" using Cons.prems(2) by simp
  have IH: "labeling_loop hs centers space (enumerate (Suc k) ps) (list_update cl k l)
              (list_update w l (w ! l + 1))
         = Inr (take (Suc k) (list_update cl k l) @ map (label_of hs centers space) ps
                  @ drop (Suc k + length ps) (list_update cl k l),
                map (\<lambda>c. (list_update w l (w ! l + 1)) ! c
                        + real (count_list (map (label_of hs centers space) ps) c))
                      [0..<length (list_update w l (w ! l + 1))])"
    by (rule Cons.IH) (use Cons.prems in simp_all)
  have t: "take (Suc k) (list_update cl k l) = take k cl @ [l]"
    using k by (simp add: take_Suc_conv_app_nth)
  have d: "drop (Suc k + length ps) (list_update cl k l) = drop (k + length (p # ps)) cl"
    by simp
  have ws: "map (\<lambda>c. (list_update w l (w ! l + 1)) ! c
                        + real (count_list (map (label_of hs centers space) ps) c))
                      [0..<length (list_update w l (w ! l + 1))]
          = map (\<lambda>c. w ! c + real (count_list (map (label_of hs centers space) (p # ps)) c))
                      [0..<length w]"
    by (auto simp: nth_list_update l_def)
  show ?case
    using cn l k IH unfolding t d ws by (simp add: enumerate_simps l_def)
qed

lemma labeling_pass:
  assumes "centers \<noteq> []" and "space = Some ''S1'' \<or> space = Some ''S2''"
  shows "labeling_loop hs centers space (enumerate 0 points)
           (replicate (length points) 0) (replicate (length centers) 0)
         = Inr (map (label_of hs centers space) points,
                map (\<lambda>c. real (count_list (map (label_of hs centers space) points) c))
                    [0..<length centers])"
proof -
  have "labeling_loop hs centers space (enumerate 0 points)
           (replicate (length points) 0) (replicate (length centers) 0)
         = Inr (take 0 (replicate (length points) 0) @ map (label_of hs centers space) points
                  @ drop (0 + length points) (replicate (length points) 0),
                map (\<lambda>c. replicate (length centers) 0 ! c
                        + real (count_list (map (label_of hs centers space) points) c))
                    [0..<length (replicate (length centers) (0::real))])"
    by (rule labeling_loop_spec [OF assms]) simp_all
  then show ?thesis by simp
qed

lemma sum_count_list_below:
  assumes "\<forall>l\<in>set xs. l < n"
  shows "(\<Sum>c\<leftarrow>[0..<n]. real (count_list xs c)) = real (length xs)"
proof -
  have "set xs \<subseteq> {0..<n}" using assms by auto
  then have "sum (count_list xs) {0..<n} = length xs"
    by (simp add: sum_count_set)
  moreover have "(\<Sum>c\<leftarrow>[0..<n]. real (count_list xs c)) = real (sum (count_list xs) {0..<n})"
    by (simp add: interv_sum_list_conv_sum_set_nat)
  ultimately show ?thesis by simp
qed

lemma optimal_quantization_supported:
  assumes "points \<noteq> []" and "space = Some ''S1'' \<or> space = Some ''S2''"
  shows "optimal_quantization hs points n_centers space n_repetition tolerance g =
     (case quantization_loop hs (space_metric hs space) points space n_repetition tolerance
             (None, map (\<lambda>i. points ! (g i mod length points)) [0..<n_centers], 1, 0,
              \<lambda>i. g (i + n_centers)) of
        None \<Rightarrow> None
      | Some (Some e, centers, gap, step, g'') \<Rightarrow> Some (Inl e, g'')
      | Some (None, centers, gap, step, g'') \<Rightarrow>
          (case labeling_loop hs centers space (enumerate 0 points)
                  (replicate (length points) 0) (replicate n_centers 0) of
             Inl e \<Rightarrow> Some (Inl e, g'')
           | Inr (clustering', weights') \<Rightarrow>
               Some (Inr (centers, map (\<lambda>w. float64 (w / real (length points))) weights',
                          clustering', step), g'')))"
  by (simp add: optimal_quantization_def select_metric_supported [OF assms(2)]
      sample_from_nonempty [OF assms(1)] Let_def
      cong: option.case_cong prod.case_cong)

lemma optimal_quantization_no_step:
  assumes "points \<noteq> []" and "space = Some ''S1'' \<or> space = Some ''S2''"
    and "1 \<le> tolerance" and "1 \<le> n_centers"
  shows "optimal_quantization hs points n_centers space n_repetition tolerance g
           = (let centers = map (\<lambda>i. points ! (g i mod length points)) [0..<n_centers];
                  clustering = map (label_of hs centers space) points
              in Some (Inr (centers,
                            map (\<lambda>c. float64 (real (count_list clustering c)
                                                 / real (length points))) [0..<n_centers],
                            clustering, 0), \<lambda>i. g (i + n_centers)))"
proof -
  define c0 where "c0 = map (\<lambda>i. points ! (g i mod length points)) [0..<n_centers]"
  have len: "length c0 = n_centers" by (simp add: c0_def)
  then have cne: "c0 \<noteq> []" using assms(4) by auto
  have q: "quantization_loop hs (space_metric hs space) points space n_repetition tolerance
             (None, c0, 1, 0, \<lambda>i. g (i + n_centers))
           = Some (None, c0, 1, 0, \<lambda>i. g (i + n_centers))"
    by (rule quantization_loop_stop) (use assms(3) in \<open>simp add: quantization_cond_def\<close>)
  note lp = labeling_pass [OF cne assms(2), of hs points, unfolded len]
  show ?thesis
    unfolding optimal_quantization_supported [OF assms(1,2)] c0_def [symmetric] Let_def
    by (simp add: q lp comp_def)
qed

lemma count_list_fraction:
  assumes "0 < length xs"
  shows "0 \<le> real (count_list xs c) / real (length xs)
       \<and> real (count_list xs c) / real (length xs) \<le> 1"
proof -
  have "count_list xs c \<le> length xs" by (rule count_le_length)
  then show ?thesis using assms by simp
qed

lemma sum_list_error:
  fixes f g :: "nat \<Rightarrow> real"
  assumes "\<forall>c<n. \<bar>f c - g c\<bar> \<le> e"
  shows "\<bar>sum_list (map f [0..<n]) - sum_list (map g [0..<n])\<bar> \<le> real n * e"
proof -
  have "sum_list (map f [0..<n]) - sum_list (map g [0..<n])
          = sum_list (map (\<lambda>c. f c - g c) [0..<n])"
    by (simp add: sum_list_subtractf)
  also have "\<bar>\<dots>\<bar> \<le> sum_list (map abs (map (\<lambda>c. f c - g c) [0..<n]))"
    by (rule sum_list_abs)
  also have "\<dots> = sum_list (map (\<lambda>c. \<bar>f c - g c\<bar>) [0..<n])"
    by (simp add: comp_def)
  also have "\<dots> \<le> sum_list (map (\<lambda>c. e) [0..<n])"
    by (rule sum_list_mono) (use assms in simp)
  also have "\<dots> = real n * e"
    by (simp add: sum_list_triv)
  finally show ?thesis .
qed

text \<open>
  C5 (amended). When optimal_quantization returns on a non-empty cloud of \<open>N\<close> points with at
  least one center, there are \<open>n_centers\<close> centers and weights and \<open>N\<close> labels, the label of
  each point is the index closest_neighbor gives for it among the returned centers, and
  every label is below \<open>n_centers\<close>. Each weight is the float64 quotient of the number of
  points carrying the label of its center by \<open>N\<close>: it is non-negative and within
  \<^verbatim>\<open>2^-54\<close> of the exact fraction. The exact fractions sum to 1; the weights sum to 1 within
  \<open>n_centers\<close> times \<^verbatim>\<open>2^-54\<close>.
\<close>

theorem weights_are_label_fractions:
  assumes run: "optimal_quantization hs points n_centers space n_repetition tolerance g
                  = Some (Inr (centers, weights, clustering, step), g')"
    and ne: "points \<noteq> []" and nc: "1 \<le> n_centers"
  shows "length centers = n_centers \<and> length weights = n_centers
       \<and> length clustering = length points
       \<and> (\<forall>i<length points.
             closest_neighbor hs (points ! i) centers space = Inr (clustering ! i))
       \<and> (\<forall>i<length clustering. clustering ! i < n_centers)
       \<and> (\<forall>c<n_centers.
             weights ! c = float64 (real (count_list clustering c) / real (length points)))
       \<and> (\<forall>c<n_centers. 0 \<le> weights ! c)
       \<and> (\<forall>c<n_centers.
             \<bar>weights ! c - real (count_list clustering c) / real (length points)\<bar>
               \<le> 1 / 2 ^ 54)
       \<and> (\<Sum>c\<leftarrow>[0..<n_centers]. real (count_list clustering c) / real (length points)) = 1
       \<and> \<bar>sum_list weights - 1\<bar> \<le> real n_centers / 2 ^ 54"
proof -
  have sup: "space = Some ''S1'' \<or> space = Some ''S2''"
  proof (rule ccontr)
    assume "\<not> ?thesis"
    then have "space \<noteq> Some ''S1''" "space \<noteq> Some ''S2''" by auto
    from select_metric_unsupported [OF this] run show False
      by (simp add: optimal_quantization_def)
  qed
  define N where "N = length points"
  have Npos: "0 < N" using ne by (simp add: N_def)
  define init :: qstate where
    "init = (None, map (\<lambda>i. points ! (g i mod length points)) [0..<n_centers], 1, 0,
              \<lambda>i. g (i + n_centers))"
  note oq = run [unfolded optimal_quantization_supported [OF ne sup], folded init_def]
  obtain gap weights' where
    loop: "quantization_loop hs (space_metric hs space) points space n_repetition tolerance init
             = Some (None, centers, gap, step, g')"
    and lab: "labeling_loop hs centers space (enumerate 0 points)
                  (replicate (length points) 0) (replicate n_centers 0)
                = Inr (clustering, weights')"
    and w: "weights = map (\<lambda>w. float64 (w / real (length points))) weights'"
    using oq by (auto split: option.splits sum.splits prod.splits)
  have len: "length centers = n_centers"
    using quantization_loop_length [OF loop] by (simp add: init_def)
  then have cne: "centers \<noteq> []" using nc by auto
  note lp = labeling_pass [OF cne sup, of hs points, unfolded len]
  have cl: "clustering = map (label_of hs centers space) points"
    using lab unfolding lp by simp
  have lcl: "length clustering = N" by (simp add: cl N_def)
  have w': "weights' = map (\<lambda>c. real (count_list clustering c)) [0..<n_centers]"
    using lab unfolding lp cl by simp
  define frac where "frac = (\<lambda>c. real (count_list clustering c) / real N)"
  have ws: "weights = map (\<lambda>c. float64 (frac c)) [0..<n_centers]"
    by (simp add: w w' frac_def N_def comp_def)
  have range: "\<forall>i<length clustering. clustering ! i < n_centers"
    using closest_neighbor_label [OF cne sup, of hs] by (simp add: cl len)
  have closest: "\<forall>i<length points.
             closest_neighbor hs (points ! i) centers space = Inr (clustering ! i)"
    using closest_neighbor_label [OF cne sup, of hs] by (simp add: cl)
  have fr: "0 \<le> frac c \<and> frac c \<le> 1" for c
    using count_list_fraction [of clustering c] Npos unfolding frac_def lcl by simp
  have wn: "\<forall>c<n_centers. weights ! c = float64 (frac c)"
    by (simp add: ws)
  have fnonneg: "0 \<le> float64 (frac c)" for c
    by (rule float64_nonneg) (use fr in blast)+
  have nonneg: "\<forall>c<n_centers. 0 \<le> weights ! c"
    using fnonneg by (simp add: wn)
  have ferr: "\<bar>float64 (frac c) - frac c\<bar> \<le> 1 / 2 ^ 54" for c
    by (rule float64_error) (use fr in blast)+
  have err: "\<forall>c<n_centers. \<bar>weights ! c - frac c\<bar> \<le> 1 / 2 ^ 54"
  proof (intro allI impI)
    fix c assume "c < n_centers"
    then have "weights ! c = float64 (frac c)" using wn by blast
    then show "\<bar>weights ! c - frac c\<bar> \<le> 1 / 2 ^ 54" using ferr [of c] by (simp only:)
  qed
  have "\<forall>l\<in>set clustering. l < n_centers"
    using range by (auto simp: in_set_conv_nth)
  then have "(\<Sum>c\<leftarrow>[0..<n_centers]. real (count_list clustering c)) = real (length clustering)"
    by (rule sum_count_list_below)
  moreover have "(\<Sum>c\<leftarrow>[0..<n_centers]. frac c)
                   = (\<Sum>c\<leftarrow>[0..<n_centers]. real (count_list clustering c)) / real N"
    unfolding frac_def by (simp add: divide_inverse sum_list_mult_const)
  ultimately have fsum: "(\<Sum>c\<leftarrow>[0..<n_centers]. frac c) = 1"
    using Npos lcl by simp
  have "\<forall>c<n_centers. \<bar>float64 (frac c) - frac c\<bar> \<le> 1 / 2 ^ 54"
    using ferr by blast
  then have "\<bar>sum_list (map (\<lambda>c. float64 (frac c)) [0..<n_centers])
              - sum_list (map frac [0..<n_centers])\<bar> \<le> real n_centers * (1 / 2 ^ 54)"
    by (rule sum_list_error)
  then have total: "\<bar>sum_list weights - 1\<bar> \<le> real n_centers / 2 ^ 54"
    unfolding ws fsum by simp
  have lw: "length weights = n_centers" by (simp add: ws)
  have lc: "length clustering = length points" by (simp add: cl)
  note wn' = wn [unfolded frac_def N_def]
  note err' = err [unfolded frac_def N_def]
  note fsum' = fsum [unfolded frac_def N_def]
  show ?thesis
    by (intro conjI len lw lc closest range wn' nonneg err' fsum' total)
qed

text \<open>Three points and two centers, no step of the loop: the second center is the closest
  one for two of the points, and the weights are the float64 numbers nearest to 1/3 and 2/3.\<close>

theorem weights_are_label_fractions_witness:
  "optimal_quantization flat_hs [[0], [2], [3]] 2 (Some ''S1'') 20 1 (\<lambda>i. i)
     = Some (Inr ([[0], [2]], [6004799503160661 / 18014398509481984, 6004799503160661 / 9007199254740992], [0, 1, 1], 0), \<lambda>i. i + 2)
   \<and> [[0], [2], [3::real]] \<noteq> []
   \<and> (1::nat) \<le> 2
   \<and> length [[0], [2::real]] = 2
   \<and> length [6004799503160661 / 18014398509481984, 6004799503160661 / 9007199254740992 :: real] = 2
   \<and> length [0, 1, 1::nat] = length [[0], [2], [3::real]]
   \<and> closest_neighbor flat_hs ([[0], [2], [3::real]] ! 0) [[0], [2]] (Some ''S1'') = Inr ([0, 1, 1::nat] ! 0)
   \<and> closest_neighbor flat_hs ([[0], [2], [3::real]] ! 1) [[0], [2]] (Some ''S1'') = Inr ([0, 1, 1::nat] ! 1)
   \<and> closest_neighbor flat_hs ([[0], [2], [3::real]] ! 2) [[0], [2]] (Some ''S1'') = Inr ([0, 1, 1::nat] ! 2)
   \<and> [0, 1, 1::nat] ! 0 < 2
   \<and> [0, 1, 1::nat] ! 1 < 2
   \<and> [0, 1, 1::nat] ! 2 < 2
   \<and> [6004799503160661 / 18014398509481984, 6004799503160661 / 9007199254740992 :: real] ! 0
       = float64 (real (count_list [0, 1, 1::nat] 0) / real (length [[0], [2], [3::real]]))
   \<and> [6004799503160661 / 18014398509481984, 6004799503160661 / 9007199254740992 :: real] ! 1
       = float64 (real (count_list [0, 1, 1::nat] 1) / real (length [[0], [2], [3::real]]))
   \<and> 0 \<le> [6004799503160661 / 18014398509481984, 6004799503160661 / 9007199254740992 :: real] ! 0
   \<and> 0 \<le> [6004799503160661 / 18014398509481984, 6004799503160661 / 9007199254740992 :: real] ! 1
   \<and> \<bar>[6004799503160661 / 18014398509481984, 6004799503160661 / 9007199254740992 :: real] ! 0
       - real (count_list [0, 1, 1::nat] 0) / real (length [[0], [2], [3::real]])\<bar> \<le> 1 / 2 ^ 54
   \<and> \<bar>[6004799503160661 / 18014398509481984, 6004799503160661 / 9007199254740992 :: real] ! 1
       - real (count_list [0, 1, 1::nat] 1) / real (length [[0], [2], [3::real]])\<bar> \<le> 1 / 2 ^ 54
   \<and> (\<Sum>c\<leftarrow>[0..<2]. real (count_list [0, 1, 1::nat] c) / real (length [[0], [2], [3::real]])) = 1
   \<and> \<bar>sum_list [6004799503160661 / 18014398509481984, 6004799503160661 / 9007199254740992 :: real] - 1\<bar> \<le> real (2::nat) / 2 ^ 54"
proof -
  have h2: "[[0], [2], [3::real]] \<noteq> []" by simp
  have h3: "(1::nat) \<le> 2" by simp
  have sup: "Some ''S1'' = Some ''S1'' \<or> Some ''S1'' = Some ''S2''" by simp
  have tol: "(1::real) \<le> 1" by simp
  have up: "[0..<2] = [0, 1::nat]" by (simp add: eval_nat_numeral)
  have cs: "map (\<lambda>i. [[0], [2], [3::real]] ! (i mod length [[0], [2], [3::real]])) [0, 1] = [[0], [2]]"
    by simp
  have ls: "map (label_of flat_hs [[0], [2]] (Some ''S1'')) [[0], [2], [3::real]] = [0, 1, 1]"
    by (simp add: label_of_def closest_neighbor_def select_metric_def space_in_IMPLEMENTED_def
        IMPLEMENTED_def argmin_def flat_hs_def flat_metric_def)
  have fs: "map (\<lambda>c. float64 (real (count_list [0, 1, 1::nat] c) / real (length [[0], [2], [3::real]]))) [0, 1]
              = [6004799503160661 / 18014398509481984, 6004799503160661 / 9007199254740992]"
    by (simp add: float64_third float64_two_thirds)
  have run: "optimal_quantization flat_hs [[0], [2], [3]] 2 (Some ''S1'') 20 1 (\<lambda>i. i)
     = Some (Inr ([[0], [2]], [6004799503160661 / 18014398509481984, 6004799503160661 / 9007199254740992], [0, 1, 1], 0), \<lambda>i. i + 2)"
    unfolding optimal_quantization_no_step [OF h2 sup tol h3] Let_def up cs ls fs by simp
  note t = weights_are_label_fractions [OF run h2 h3]
  have p0: "(0::nat) < length [[0], [2], [3::real]]" and p1: "(1::nat) < length [[0], [2], [3::real]]"
    and p2: "(2::nat) < length [[0], [2], [3::real]]"
    by simp_all
  have c0: "(0::nat) < 2" and c1: "(1::nat) < 2" by simp_all
  have q0: "(0::nat) < length [0, 1, 1::nat]" and q1: "(1::nat) < length [0, 1, 1::nat]"
    and q2: "(2::nat) < length [0, 1, 1::nat]"
    by simp_all
  have l1: "length [[0], [2::real]] = 2" using t by blast
  have l2: "length [6004799503160661 / 18014398509481984, 6004799503160661 / 9007199254740992 :: real] = 2" using t by blast
  have l3: "length [0, 1, 1::nat] = length [[0], [2], [3::real]]" using t by blast
  have cn0: "closest_neighbor flat_hs ([[0], [2], [3::real]] ! 0) [[0], [2]] (Some ''S1'') = Inr ([0, 1, 1::nat] ! 0)"
    using t p0 by blast
  have cn1: "closest_neighbor flat_hs ([[0], [2], [3::real]] ! 1) [[0], [2]] (Some ''S1'') = Inr ([0, 1, 1::nat] ! 1)"
    using t p1 by blast
  have cn2: "closest_neighbor flat_hs ([[0], [2], [3::real]] ! 2) [[0], [2]] (Some ''S1'') = Inr ([0, 1, 1::nat] ! 2)"
    using t p2 by blast
  have r0: "[0, 1, 1::nat] ! 0 < 2" using t q0 by blast
  have r1: "[0, 1, 1::nat] ! 1 < 2" using t q1 by blast
  have r2: "[0, 1, 1::nat] ! 2 < 2" using t q2 by blast
  have w0: "[6004799503160661 / 18014398509481984, 6004799503160661 / 9007199254740992 :: real] ! 0
       = float64 (real (count_list [0, 1, 1::nat] 0) / real (length [[0], [2], [3::real]]))"
    using t c0 by blast
  have w1: "[6004799503160661 / 18014398509481984, 6004799503160661 / 9007199254740992 :: real] ! 1
       = float64 (real (count_list [0, 1, 1::nat] 1) / real (length [[0], [2], [3::real]]))"
    using t c1 by blast
  have n0: "0 \<le> [6004799503160661 / 18014398509481984, 6004799503160661 / 9007199254740992 :: real] ! 0" using t c0 by blast
  have n1: "0 \<le> [6004799503160661 / 18014398509481984, 6004799503160661 / 9007199254740992 :: real] ! 1" using t c1 by blast
  have e0: "\<bar>[6004799503160661 / 18014398509481984, 6004799503160661 / 9007199254740992 :: real] ! 0
       - real (count_list [0, 1, 1::nat] 0) / real (length [[0], [2], [3::real]])\<bar> \<le> 1 / 2 ^ 54"
    using t c0 by blast
  have e1: "\<bar>[6004799503160661 / 18014398509481984, 6004799503160661 / 9007199254740992 :: real] ! 1
       - real (count_list [0, 1, 1::nat] 1) / real (length [[0], [2], [3::real]])\<bar> \<le> 1 / 2 ^ 54"
    using t c1 by blast
  have fsum: "(\<Sum>c\<leftarrow>[0..<2]. real (count_list [0, 1, 1::nat] c) / real (length [[0], [2], [3::real]])) = 1"
    using t by blast
  have tot: "\<bar>sum_list [6004799503160661 / 18014398509481984, 6004799503160661 / 9007199254740992 :: real] - 1\<bar> \<le> real (2::nat) / 2 ^ 54"
    using t by blast
  show ?thesis by (intro conjI run h2 h3 l1 l2 l3 cn0 cn1 cn2 r0 r1 r2 w0 w1 n0 n1 e0 e1 fsum tot)
qed

text \<open>Ten points, each its own center: every weight is the float64 number nearest to 1/10,
  which is above 1/10, and the ten weights add up to more than 1.\<close>

theorem weights_sum_not_one_counterexample:
  "optimal_quantization flat_hs
      [[0], [1], [2], [3], [4], [5], [6], [7], [8], [9]]
      10 (Some ''S1'') 20 1 (\<lambda>i. i)
     = Some (Inr ([[0], [1], [2], [3], [4], [5], [6], [7], [8], [9]],
                  [3602879701896397 / 36028797018963968, 3602879701896397 / 36028797018963968, 3602879701896397 / 36028797018963968, 3602879701896397 / 36028797018963968, 3602879701896397 / 36028797018963968, 3602879701896397 / 36028797018963968, 3602879701896397 / 36028797018963968, 3602879701896397 / 36028797018963968, 3602879701896397 / 36028797018963968, 3602879701896397 / 36028797018963968],
                  [0, 1, 2, 3, 4, 5, 6, 7, 8, 9], 0), \<lambda>i. i + 10)
   \<and> sum_list [3602879701896397 / 36028797018963968, 3602879701896397 / 36028797018963968, 3602879701896397 / 36028797018963968, 3602879701896397 / 36028797018963968, 3602879701896397 / 36028797018963968, 3602879701896397 / 36028797018963968, 3602879701896397 / 36028797018963968, 3602879701896397 / 36028797018963968, 3602879701896397 / 36028797018963968, 3602879701896397 / 36028797018963968 :: real] \<noteq> 1
   \<and> [3602879701896397 / 36028797018963968, 3602879701896397 / 36028797018963968, 3602879701896397 / 36028797018963968, 3602879701896397 / 36028797018963968, 3602879701896397 / 36028797018963968, 3602879701896397 / 36028797018963968, 3602879701896397 / 36028797018963968, 3602879701896397 / 36028797018963968, 3602879701896397 / 36028797018963968, 3602879701896397 / 36028797018963968 :: real] ! 0
       \<noteq> real (count_list [0, 1, 2, 3, 4, 5, 6, 7, 8, 9::nat] 0)
           / real (length [[0], [1], [2], [3], [4], [5], [6], [7], [8], [9::real]])"
proof -
  have ne: "[[0], [1], [2], [3], [4], [5], [6], [7], [8], [9::real]] \<noteq> []" by simp
  have sup: "Some ''S1'' = Some ''S1'' \<or> Some ''S1'' = Some ''S2''" by simp
  have tol: "(1::real) \<le> 1" by simp
  have nc: "(1::nat) \<le> 10" by simp
  have up: "[0..<10] = [0, 1, 2, 3, 4, 5, 6, 7, 8, 9::nat]" by (simp add: eval_nat_numeral)
  have cs: "map (\<lambda>i. [[0], [1], [2], [3], [4], [5], [6], [7], [8], [9::real]] ! (i mod length [[0], [1], [2], [3], [4], [5], [6], [7], [8], [9::real]]))
              [0, 1, 2, 3, 4, 5, 6, 7, 8, 9]
            = [[0], [1], [2], [3], [4], [5], [6], [7], [8], [9]]"
    by simp
  have ls: "map (label_of flat_hs [[0], [1], [2], [3], [4], [5], [6], [7], [8], [9]] (Some ''S1''))
              [[0], [1], [2], [3], [4], [5], [6], [7], [8], [9::real]]
            = [0, 1, 2, 3, 4, 5, 6, 7, 8, 9]"
    by (simp add: label_of_def closest_neighbor_def select_metric_def space_in_IMPLEMENTED_def
        IMPLEMENTED_def argmin_def flat_hs_def flat_metric_def)
  have fs: "map (\<lambda>c. float64 (real (count_list [0, 1, 2, 3, 4, 5, 6, 7, 8, 9::nat] c)
                              / real (length [[0], [1], [2], [3], [4], [5], [6], [7], [8], [9::real]])))
              [0, 1, 2, 3, 4, 5, 6, 7, 8, 9]
            = [3602879701896397 / 36028797018963968, 3602879701896397 / 36028797018963968, 3602879701896397 / 36028797018963968, 3602879701896397 / 36028797018963968, 3602879701896397 / 36028797018963968, 3602879701896397 / 36028797018963968, 3602879701896397 / 36028797018963968, 3602879701896397 / 36028797018963968, 3602879701896397 / 36028797018963968, 3602879701896397 / 36028797018963968]"
    by (simp add: float64_tenth)
  have run: "optimal_quantization flat_hs
      [[0], [1], [2], [3], [4], [5], [6], [7], [8], [9]]
      10 (Some ''S1'') 20 1 (\<lambda>i. i)
     = Some (Inr ([[0], [1], [2], [3], [4], [5], [6], [7], [8], [9]],
                  [3602879701896397 / 36028797018963968, 3602879701896397 / 36028797018963968, 3602879701896397 / 36028797018963968, 3602879701896397 / 36028797018963968, 3602879701896397 / 36028797018963968, 3602879701896397 / 36028797018963968, 3602879701896397 / 36028797018963968, 3602879701896397 / 36028797018963968, 3602879701896397 / 36028797018963968, 3602879701896397 / 36028797018963968],
                  [0, 1, 2, 3, 4, 5, 6, 7, 8, 9], 0), \<lambda>i. i + 10)"
    unfolding optimal_quantization_no_step [OF ne sup tol nc] Let_def up cs ls fs by simp
  have s: "sum_list [3602879701896397 / 36028797018963968, 3602879701896397 / 36028797018963968, 3602879701896397 / 36028797018963968, 3602879701896397 / 36028797018963968, 3602879701896397 / 36028797018963968, 3602879701896397 / 36028797018963968, 3602879701896397 / 36028797018963968, 3602879701896397 / 36028797018963968, 3602879701896397 / 36028797018963968, 3602879701896397 / 36028797018963968 :: real] \<noteq> 1"
    by simp
  have f: "[3602879701896397 / 36028797018963968, 3602879701896397 / 36028797018963968, 3602879701896397 / 36028797018963968, 3602879701896397 / 36028797018963968, 3602879701896397 / 36028797018963968, 3602879701896397 / 36028797018963968, 3602879701896397 / 36028797018963968, 3602879701896397 / 36028797018963968, 3602879701896397 / 36028797018963968, 3602879701896397 / 36028797018963968 :: real] ! 0
       \<noteq> real (count_list [0, 1, 2, 3, 4, 5, 6, 7, 8, 9::nat] 0)
           / real (length [[0], [1], [2], [3], [4], [5], [6], [7], [8], [9::real]])"
    by simp
  show ?thesis by (intro conjI run s f)
qed

text \<open>
  C9 (amended). For a non-empty cloud, a supported space, a tolerance of at least 1 and at
  least one center, neither loop makes an iteration: karcher_flow returns the drawn point
  with step count 0, and optimal_quantization returns the drawn centers, unmodified, with
  step count 0.
\<close>

theorem zero_iterations_for_large_tolerance:
  assumes "points \<noteq> []" and "space = Some ''S1'' \<or> space = Some ''S2''"
    and "1 \<le> tolerance" and "1 \<le> n_centers"
  shows "karcher_flow hs points space tolerance g
           = Some (Inr (points ! (g 0 mod length points), 0), \<lambda>i. g (Suc i))
       \<and> (\<exists>weights clustering.
            optimal_quantization hs points n_centers space n_repetition tolerance g
              = Some (Inr (map (\<lambda>i. points ! (g i mod length points)) [0..<n_centers],
                           weights, clustering, 0),
                      \<lambda>i. g (i + n_centers)))"
proof -
  have k: "karcher_loop (space_metric hs space) points tolerance
             (points ! (g 0 mod length points), 1, 0)
           = Some (points ! (g 0 mod length points), 1, 0)"
    using assms(3) by (simp add: karcher_loop_def while_option_unfold karcher_cond_def)
  have kf: "karcher_flow hs points space tolerance g
           = Some (Inr (points ! (g 0 mod length points), 0), \<lambda>i. g (Suc i))"
    by (simp add: karcher_flow_def select_metric_supported [OF assms(2)]
        sample_from_one [OF assms(1)] k)
  define c0 where "c0 = map (\<lambda>i. points ! (g i mod length points)) [0..<n_centers]"
  have len: "length c0 = n_centers" by (simp add: c0_def)
  then have cne: "c0 \<noteq> []" using assms(4) by auto
  have q: "quantization_loop hs (space_metric hs space) points space n_repetition tolerance
             (None, c0, 1, 0, \<lambda>i. g (i + n_centers))
           = Some (None, c0, 1, 0, \<lambda>i. g (i + n_centers))"
    by (rule quantization_loop_stop) (use assms(3) in \<open>simp add: quantization_cond_def\<close>)
  note lp = labeling_pass [OF cne assms(2), of hs points, unfolded len]
  have "optimal_quantization hs points n_centers space n_repetition tolerance g
          = Some (Inr (c0, map (\<lambda>w. float64 (w / real (length points)))
                             (map (\<lambda>c. real (count_list (map (label_of hs c0 space) points) c))
                                [0..<n_centers]),
                       map (label_of hs c0 space) points, 0), \<lambda>i. g (i + n_centers))"
    unfolding optimal_quantization_supported [OF assms(1,2)] c0_def [symmetric]
    by (simp add: q lp)
  then show ?thesis using kf unfolding c0_def by blast
qed

theorem zero_iterations_for_large_tolerance_witness:
  "[[0], [2], [3::real]] \<noteq> [] \<and> (Some ''S1'' = Some ''S1'' \<or> Some ''S1'' = Some ''S2'')
   \<and> (1::real) \<le> 1 \<and> (1::nat) \<le> 2 \<and>
   (karcher_flow flat_hs [[0], [2], [3::real]] (Some ''S1'') 1 (\<lambda>i. i)
           = Some (Inr ([[0], [2], [3::real]] ! ((\<lambda>i. i) 0 mod length [[0], [2], [3::real]]), 0), \<lambda>i. (\<lambda>i. i) (Suc i))
       \<and> (\<exists>weights clustering.
            optimal_quantization flat_hs [[0], [2], [3::real]] 2 (Some ''S1'') 20 1 (\<lambda>i. i)
              = Some (Inr (map (\<lambda>i. [[0], [2], [3::real]] ! ((\<lambda>i. i) i mod length [[0], [2], [3::real]])) [0..<2],
                           weights, clustering, 0),
                      \<lambda>i. (\<lambda>i. i) (i + 2))))"
proof -
  have h1: "[[0], [2], [3::real]] \<noteq> []" by simp
  have h2: "Some ''S1'' = Some ''S1'' \<or> Some ''S1'' = Some ''S2''" by simp
  have h3: "(1::real) \<le> 1" by simp
  have h4: "(1::nat) \<le> 2" by simp
  note t = zero_iterations_for_large_tolerance [OF h1 h2 h3 h4, where hs = flat_hs
      and g = "\<lambda>i. i" and n_repetition = 20]
  show ?thesis by (intro conjI h1 h2 h3 h4) (use t in blast)+
qed

text \<open>With no center at all the optimisation loop is skipped as well, but the labelling pass
  then takes the argmin of an empty array and optimal_quantization raises instead of
  returning the centers.\<close>

theorem zero_iterations_no_center_counterexample:
  "map_option fst (optimal_quantization flat_hs [[0]] 0 (Some ''S1'') 20 1 id)
     = Some (Inl ValueError)"
  by (simp add: optimal_quantization_def select_metric_def space_in_IMPLEMENTED_def
      IMPLEMENTED_def sample_from_def randint_def quantization_loop_def while_option_unfold
      quantization_cond_def closest_neighbor_def argmin_def
      flat_hs_def flat_metric_def Let_def)

section \<open>diameter_of_data\<close>

lemma Max_insert_max:
  assumes "finite (S :: real set)"
  shows "Max (insert (max a x) S) = Max (insert a (insert x S))"
proof (cases "S = {}")
  case True
  then show ?thesis by simp
next
  case False
  then show ?thesis using assms by (simp add: max.assoc)
qed

lemma foldl_max_Max: "foldl max (a::real) xs = Max (insert a (set xs))"
proof (induction xs arbitrary: a)
  case Nil
  show ?case by simp
next
  case (Cons x xs)
  have "foldl max a (x # xs) = Max (insert (max a x) (set xs))" using Cons.IH by simp
  also have "\<dots> = Max (insert a (insert x (set xs)))" by (rule Max_insert_max) simp
  finally show ?case by simp
qed

lemma array_max_Max:
  assumes "ds \<noteq> []"
  shows "array_max ds = Inr (Max (set ds))"
  using assms by (cases ds) (simp_all add: array_max_def foldl_max_Max)

lemma Max_absorb_block:
  assumes "finite (F :: real set)" and "F \<noteq> {}" and "finite U"
  shows "Max (insert (max acc (Max F)) U) = Max (insert acc (F \<union> U))"
proof (cases "U = {}")
  case True
  then show ?thesis using assms by simp
next
  case False
  have "Max (insert acc (F \<union> U)) = Max (insert acc F \<union> U)" by simp
  also have "\<dots> = max (Max (insert acc F)) (Max U)"
    using assms False by (intro Max_Un) auto
  also have "\<dots> = max (max acc (Max F)) (Max U)" using assms by simp
  also have "\<dots> = Max (insert (max acc (Max F)) U)" using assms False by simp
  finally show ?thesis by simp
qed

lemma diameter_loop_Max:
  assumes "b \<le> length points - 1"
  shows "diameter_loop m points [a..<b] acc
           = Inr (Max (insert acc
                    (\<Union>i\<in>{a..<b}. (\<lambda>q. metric_dist m (points ! i) q * 2)
                                       ` set (drop (Suc i) points))))"
proof (induction "b - a" arbitrary: a acc)
  case 0
  then have "[a..<b] = []" and "{a..<b} = {}" by simp_all
  then show ?case by simp
next
  case (Suc n)
  let ?F = "\<lambda>i. (\<lambda>q. metric_dist m (points ! i) q * 2) ` set (drop (Suc i) points)"
  let ?ds = "map (metric_dist m (points ! a)) (drop (Suc a) points)"
  have ab: "a < b" using Suc.hyps(2) by simp
  then have ne: "drop (Suc a) points \<noteq> []" using assms by simp
  have upt: "[a..<b] = a # [Suc a..<b]" using ab by (simp add: upt_conv_Cons)
  have amax: "array_max ?ds = Inr (Max (set ?ds))"
    using ne by (intro array_max_Max) simp
  have Dfin: "finite (set ?ds)" "set ?ds \<noteq> {}" using ne by simp_all
  have "mono (\<lambda>v::real. v * 2)" by (simp add: mono_def)
  then have "Max (set ?ds) * 2 = Max ((\<lambda>v. v * 2) ` set ?ds)"
    using Dfin by (rule mono_Max_commute)
  also have "(\<lambda>v. v * 2) ` set ?ds = ?F a" by (simp add: image_image)
  finally have twice: "Max (set ?ds) * 2 = Max (?F a)" .
  have Ffin: "finite (?F a)" "?F a \<noteq> {}" using ne by simp_all
  have Ufin: "finite (\<Union>i\<in>{Suc a..<b}. ?F i)" by simp
  have IH: "diameter_loop m points [Suc a..<b] (max acc (Max (?F a)))
              = Inr (Max (insert (max acc (Max (?F a))) (\<Union>i\<in>{Suc a..<b}. ?F i)))"
    by (rule Suc.hyps(1)) (use Suc.hyps(2) in simp)
  have split: "(\<Union>i\<in>{a..<b}. ?F i) = ?F a \<union> (\<Union>i\<in>{Suc a..<b}. ?F i)"
  proof -
    have "{a..<b} = insert a {Suc a..<b}" using ab by auto
    then show ?thesis by simp
  qed
  have "diameter_loop m points [a..<b] acc
          = (case array_max ?ds of
               Inl e \<Rightarrow> Inl e
             | Inr far \<Rightarrow> diameter_loop m points [Suc a..<b] (max acc (far * 2)))"
    unfolding upt by (simp add: Let_def)
  also have "\<dots> = diameter_loop m points [Suc a..<b] (max acc (Max (?F a)))"
    unfolding amax twice [symmetric] by simp
  also have "\<dots> = Inr (Max (insert acc (?F a \<union> (\<Union>i\<in>{Suc a..<b}. ?F i))))"
    unfolding IH using Max_absorb_block [OF Ffin Ufin] by simp
  finally show ?case unfolding split .
qed

lemma in_set_drop_nth:
  "x \<in> set (drop n xs) \<longleftrightarrow> (\<exists>j. n \<le> j \<and> j < length xs \<and> xs ! j = x)"
proof
  assume "x \<in> set (drop n xs)"
  then obtain k where "k < length xs - n" "drop n xs ! k = x"
    by (auto simp: in_set_conv_nth)
  then have "n \<le> n + k \<and> n + k < length xs \<and> xs ! (n + k) = x" by auto
  then show "\<exists>j. n \<le> j \<and> j < length xs \<and> xs ! j = x" by blast
next
  assume "\<exists>j. n \<le> j \<and> j < length xs \<and> xs ! j = x"
  then obtain j where j: "n \<le> j" "j < length xs" "xs ! j = x" by blast
  then have "j - n < length (drop n xs)" "drop n xs ! (j - n) = x" by auto
  then show "x \<in> set (drop n xs)" using nth_mem by blast
qed

lemma pair_block_union:
  "(\<Union>i\<in>{0..<length xs - 1}. (\<lambda>q. f (xs ! i) q) ` set (drop (Suc i) xs))
     = {f (xs ! i) (xs ! j) | i j. i < j \<and> j < length xs}" (is "?L = ?R")
proof (rule set_eqI, rule iffI)
  fix v assume "v \<in> ?L"
  then obtain i q where "i < length xs - 1" "q \<in> set (drop (Suc i) xs)" "v = f (xs ! i) q"
    by auto
  then obtain j where "Suc i \<le> j" "j < length xs" "xs ! j = q"
    unfolding in_set_drop_nth by blast
  then have "i < j \<and> j < length xs \<and> v = f (xs ! i) (xs ! j)"
    using \<open>v = f (xs ! i) q\<close> by auto
  then show "v \<in> ?R" by blast
next
  fix v assume "v \<in> ?R"
  then obtain i j where ij: "i < j" "j < length xs" "v = f (xs ! i) (xs ! j)" by blast
  then have "i \<in> {0..<length xs - 1}" by auto
  moreover have "xs ! j \<in> set (drop (Suc i) xs)"
    unfolding in_set_drop_nth by (rule exI [of _ j]) (use ij in simp)
  ultimately show "v \<in> ?L" using ij(3) by blast
qed

lemma pair_in_mset:
  "{#x, y#} \<subseteq># mset xs \<longleftrightarrow>
     (\<exists>i j. i < length xs \<and> j < length xs \<and> i \<noteq> j \<and> xs ! i = x \<and> xs ! j = y)"
proof
  assume sub: "{#x, y#} \<subseteq># mset xs"
  then have "x \<in># mset xs" by (simp add: insert_subset_eq_iff)
  then obtain i where i: "i < length xs" "xs ! i = x" by (auto simp: in_set_conv_nth)
  have xs: "xs = take i xs @ x # drop (Suc i) xs"
    using i id_take_nth_drop by blast
  have "mset xs = add_mset x (mset (take i xs) + mset (drop (Suc i) xs))"
    by (subst xs) simp
  with sub have "y \<in># mset (take i xs) + mset (drop (Suc i) xs)"
    by (simp add: insert_subset_eq_iff)
  then consider "y \<in> set (take i xs)" | "y \<in> set (drop (Suc i) xs)" by auto
  then show "\<exists>i j. i < length xs \<and> j < length xs \<and> i \<noteq> j \<and> xs ! i = x \<and> xs ! j = y"
  proof cases
    case 1
    then obtain j where "j < length (take i xs)" "take i xs ! j = y"
      by (auto simp: in_set_conv_nth)
    then have "j < length xs \<and> i \<noteq> j \<and> xs ! j = y" using i(1) by auto
    then show ?thesis using i by blast
  next
    case 2
    then obtain j where "Suc i \<le> j" "j < length xs" "xs ! j = y"
      unfolding in_set_drop_nth by blast
    then have "j < length xs \<and> i \<noteq> j \<and> xs ! j = y" by auto
    then show ?thesis using i by blast
  qed
next
  assume "\<exists>i j. i < length xs \<and> j < length xs \<and> i \<noteq> j \<and> xs ! i = x \<and> xs ! j = y"
  then obtain i j where ij: "i < length xs" "j < length xs" "i \<noteq> j" "xs ! i = x" "xs ! j = y"
    by blast
  have xs: "xs = take i xs @ x # drop (Suc i) xs"
    using ij(1,4) id_take_nth_drop by blast
  have m: "mset xs = add_mset x (mset (take i xs) + mset (drop (Suc i) xs))"
    by (subst xs) simp
  have "y \<in> set (take i xs) \<or> y \<in> set (drop (Suc i) xs)"
  proof (cases "j < i")
    case True
    then have "take i xs ! j = y" "j < length (take i xs)" using ij by auto
    then show ?thesis using nth_mem by blast
  next
    case False
    then have "Suc i \<le> j" using ij(3) by auto
    then have "y \<in> set (drop (Suc i) xs)"
      unfolding in_set_drop_nth by (intro exI [of _ j]) (use ij in simp)
    then show ?thesis by simp
  qed
  then have "y \<in># mset (take i xs) + mset (drop (Suc i) xs)" by auto
  then show "{#x, y#} \<subseteq># mset xs"
    unfolding m by (simp add: insert_subset_eq_iff)
qed


lemma diameter_loop_fold:
  assumes "\<forall>i\<in>set idx. Suc i < length points"
  shows "diameter_loop m points idx acc
           = Inr (foldl (\<lambda>diameter i.
                     max diameter
                       (Max {metric_dist m (points ! i) (points ! j) | j.
                               i < j \<and> j < length points} * 2))
                    acc idx)"
  using assms
proof (induction idx arbitrary: acc)
  case Nil
  show ?case by simp
next
  case (Cons i idx)
  let ?ds = "map (metric_dist m (points ! i)) (drop (Suc i) points)"
  have ne: "?ds \<noteq> []" using Cons.prems by simp
  have "set ?ds = {metric_dist m (points ! i) (points ! j) | j. i < j \<and> j < length points}"
  proof (rule set_eqI, rule iffI)
    fix v assume "v \<in> set ?ds"
    then obtain q where "q \<in> set (drop (Suc i) points)" "v = metric_dist m (points ! i) q"
      by auto
    then obtain j where "Suc i \<le> j" "j < length points" "points ! j = q"
      unfolding in_set_drop_nth by blast
    then have "i < j \<and> j < length points \<and> v = metric_dist m (points ! i) (points ! j)"
      using \<open>v = metric_dist m (points ! i) q\<close> by auto
    then show "v \<in> {metric_dist m (points ! i) (points ! j) | j. i < j \<and> j < length points}"
      by blast
  next
    fix v
    assume "v \<in> {metric_dist m (points ! i) (points ! j) | j. i < j \<and> j < length points}"
    then obtain j where j: "i < j" "j < length points"
      "v = metric_dist m (points ! i) (points ! j)" by blast
    have "points ! j \<in> set (drop (Suc i) points)"
      unfolding in_set_drop_nth by (rule exI [of _ j]) (use j in simp)
    then show "v \<in> set ?ds" using j(3) by simp
  qed
  then have amax: "array_max ?ds
      = Inr (Max {metric_dist m (points ! i) (points ! j) | j. i < j \<and> j < length points})"
    using array_max_Max [OF ne] by simp
  have rest: "\<forall>i\<in>set idx. Suc i < length points" using Cons.prems by simp
  show ?case by (simp add: amax Let_def Cons.IH [OF rest])
qed

lemma diameter_of_data_supported:
  assumes "space = Some ''S1'' \<or> space = Some ''S2''"
  shows "diameter_of_data hs points space
           = diameter_loop (space_metric hs space) points [0..<length points - 1] 0"
  by (simp add: diameter_of_data_def select_metric_supported [OF assms])

lemma diameter_of_data_Max:
  assumes "space = Some ''S1'' \<or> space = Some ''S2''"
  shows "diameter_of_data hs points space
           = Inr (Max (insert 0 {metric_dist (space_metric hs space) (points ! i) (points ! j) * 2
                                 | i j. i < j \<and> j < length points}))"
proof -
  have "diameter_of_data hs points space
          = Inr (Max (insert 0
              (\<Union>i\<in>{0..<length points - 1}.
                  (\<lambda>q. metric_dist (space_metric hs space) (points ! i) q * 2)
                    ` set (drop (Suc i) points))))"
    unfolding diameter_of_data_supported [OF assms] by (rule diameter_loop_Max) simp
  then show ?thesis
    unfolding pair_block_union
      [of "\<lambda>p q. metric_dist (space_metric hs space) p q * 2" points] .
qed

lemma finite_pair_values:
  "finite {f (xs ! i) (xs ! j) | i j. i < j \<and> j < length xs}"
proof -
  have "{f (xs ! i) (xs ! j) | i j. i < j \<and> j < length xs}
          \<subseteq> (\<lambda>(i, j). f (xs ! i) (xs ! j)) ` ({..<length xs} \<times> {..<length xs})"
    by auto
  then show ?thesis by (rule finite_subset) simp
qed

text \<open>
  C4. For a cloud of at least two points and a supported space, diameter_of_data is the
  running maximum, started at 0.0, over \<open>i = 0, \<dots>, N - 2\<close> of twice the largest distance
  from point \<open>i\<close> to the points of greater index; this is the larger of 0 and twice the
  largest distance over the index pairs \<open>i < j\<close>, hence exactly twice that largest distance
  when the distances of the cloud are non-negative, as those of a metric are.
\<close>

theorem diameter_is_twice_max_pairwise:
  assumes "2 \<le> length points" and "space = Some ''S1'' \<or> space = Some ''S2''"
  shows "let d = metric_dist (space_metric hs space);
             N = length points;
             S = {d (points ! i) (points ! j) | i j. i < j \<and> j < N}
         in diameter_of_data hs points space
              = Inr (foldl (\<lambda>diameter i.
                       max diameter (Max {d (points ! i) (points ! j) | j. i < j \<and> j < N} * 2))
                     0 [0..<N - 1])
          \<and> diameter_of_data hs points space = Inr (max 0 (2 * Max S))
          \<and> ((\<forall>i j. i < j \<and> j < N \<longrightarrow> 0 \<le> d (points ! i) (points ! j))
                \<longrightarrow> diameter_of_data hs points space = Inr (2 * Max S))"
proof -
  define d where "d = metric_dist (space_metric hs space)"
  define N where "N = length points"
  define S where "S = {d (points ! i) (points ! j) | i j. i < j \<and> j < N}"
  have fold: "diameter_of_data hs points space
              = Inr (foldl (\<lambda>diameter i.
                       max diameter (Max {d (points ! i) (points ! j) | j. i < j \<and> j < N} * 2))
                     0 [0..<N - 1])"
    unfolding diameter_of_data_supported [OF assms(2)] d_def N_def
    by (rule diameter_loop_fold) auto
  have S2: "{d (points ! i) (points ! j) * 2 | i j. i < j \<and> j < N} = (\<lambda>v. v * 2) ` S"
    unfolding S_def by auto
  have Sfin: "finite S" unfolding S_def N_def by (rule finite_pair_values)
  have "d (points ! 0) (points ! 1) \<in> S"
    unfolding S_def N_def using assms(1) by (intro CollectI exI [of _ 0] exI [of _ 1]) simp
  then have Sne: "S \<noteq> {}" by auto
  have "mono (\<lambda>v::real. v * 2)" by (simp add: mono_def)
  then have twice: "Max S * 2 = Max ((\<lambda>v. v * 2) ` S)"
    using Sfin Sne by (rule mono_Max_commute)
  have "diameter_of_data hs points space = Inr (Max (insert 0 ((\<lambda>v. v * 2) ` S)))"
    unfolding diameter_of_data_Max [OF assms(2)] d_def [symmetric] N_def [symmetric] S2 ..
  also have "Max (insert 0 ((\<lambda>v. v * 2) ` S)) = max 0 (Max ((\<lambda>v. v * 2) ` S))"
    using Sfin Sne by simp
  finally have val: "diameter_of_data hs points space = Inr (max 0 (2 * Max S))"
    using twice by (simp add: mult.commute)
  have nonneg: "diameter_of_data hs points space = Inr (2 * Max S)"
    if "\<forall>i j. i < j \<and> j < N \<longrightarrow> 0 \<le> d (points ! i) (points ! j)"
  proof -
    have "0 \<le> d (points ! 0) (points ! 1)" using that assms(1) by (simp add: N_def)
    also have "\<dots> \<le> Max S" using Sfin \<open>d (points ! 0) (points ! 1) \<in> S\<close> by (rule Max_ge)
    finally show ?thesis using val by (simp add: max_def)
  qed
  show ?thesis
    unfolding Let_def using fold val nonneg
    unfolding S_def N_def d_def by blast
qed

theorem diameter_is_twice_max_pairwise_witness:
  "(2::nat) \<le> length [[0], [3], [1::real]]
   \<and> (Some ''S1'' = Some ''S1'' \<or> Some ''S1'' = Some ''S2'')
   \<and> diameter_of_data flat_hs [[0], [3], [1]] (Some ''S1'') = Inr 6 \<and>
   (let d = metric_dist (space_metric flat_hs (Some ''S1''));
             N = length [[0], [3], [1::real]];
             S = {d ([[0], [3], [1::real]] ! i) ([[0], [3], [1::real]] ! j) | i j. i < j \<and> j < N}
         in diameter_of_data flat_hs [[0], [3], [1::real]] (Some ''S1'')
              = Inr (foldl (\<lambda>diameter i.
                       max diameter (Max {d ([[0], [3], [1::real]] ! i) ([[0], [3], [1::real]] ! j) | j. i < j \<and> j < N} * 2))
                     0 [0..<N - 1])
          \<and> diameter_of_data flat_hs [[0], [3], [1::real]] (Some ''S1'') = Inr (max 0 (2 * Max S))
          \<and> ((\<forall>i j. i < j \<and> j < N \<longrightarrow> 0 \<le> d ([[0], [3], [1::real]] ! i) ([[0], [3], [1::real]] ! j))
                \<longrightarrow> diameter_of_data flat_hs [[0], [3], [1::real]] (Some ''S1'') = Inr (2 * Max S)))"
proof -
  have h1: "(2::nat) \<le> length [[0], [3], [1::real]]" by simp
  have h2: "Some ''S1'' = Some ''S1'' \<or> Some ''S1'' = Some ''S2''" by simp
  have run: "diameter_of_data flat_hs [[0], [3], [1]] (Some ''S1'') = Inr 6"
    by (simp add: diameter_of_data_def select_metric_def space_in_IMPLEMENTED_def
        IMPLEMENTED_def array_max_def flat_hs_def flat_metric_def Let_def upt_conv_Cons)
  note t = diameter_is_twice_max_pairwise [OF h1 h2, where hs = flat_hs]
  show ?thesis by (intro conjI h1 h2 run t)
qed

text \<open>
  C8. For a supported space whose distance is symmetric on the points of the cloud,
  diameter_of_data returns the same value on every reordering of the cloud.
\<close>

theorem diameter_permutation_invariant:
  assumes "mset points' = mset points" and "space = Some ''S1'' \<or> space = Some ''S2''"
    and "\<forall>p\<in>set points. \<forall>q\<in>set points.
           metric_dist (space_metric hs space) p q = metric_dist (space_metric hs space) q p"
  shows "diameter_of_data hs points' space = diameter_of_data hs points space"
proof -
  define d where "d = metric_dist (space_metric hs space)"
  have sym: "d p q = d q p" if "p \<in> set points" "q \<in> set points" for p q
    using assms(3) that by (simp add: d_def)
  have set_eq: "set points' = set points" using assms(1) by (rule mset_eq_setD)
  have pairs: "{d (xs ! i) (xs ! j) * 2 | i j. i < j \<and> j < length xs}
                 = {d x y * 2 | x y. {#x, y#} \<subseteq># mset xs}"
    if xs: "set xs = set points" for xs
  proof (rule set_eqI, rule iffI)
    fix v assume "v \<in> {d (xs ! i) (xs ! j) * 2 | i j. i < j \<and> j < length xs}"
    then obtain i j where ij: "i < j" "j < length xs" "v = d (xs ! i) (xs ! j) * 2" by blast
    then have "{#xs ! i, xs ! j#} \<subseteq># mset xs"
      unfolding pair_in_mset by (intro exI [of _ i] exI [of _ j]) simp
    then show "v \<in> {d x y * 2 | x y. {#x, y#} \<subseteq># mset xs}" using ij(3) by blast
  next
    fix v assume "v \<in> {d x y * 2 | x y. {#x, y#} \<subseteq># mset xs}"
    then obtain x y where xy: "{#x, y#} \<subseteq># mset xs" "v = d x y * 2" by blast
    then obtain i j where ij: "i < length xs" "j < length xs" "i \<noteq> j" "xs ! i = x" "xs ! j = y"
      unfolding pair_in_mset by blast
    then have mem: "x \<in> set points" "y \<in> set points"
      using xs nth_mem by blast+
    show "v \<in> {d (xs ! i) (xs ! j) * 2 | i j. i < j \<and> j < length xs}"
    proof (cases "i < j")
      case True
      then show ?thesis using ij xy(2) by blast
    next
      case False
      then have "j < i" using ij(3) by simp
      moreover have "v = d (xs ! j) (xs ! i) * 2" using xy(2) ij(4,5) sym [OF mem] by simp
      ultimately show ?thesis using ij(1) by blast
    qed
  qed
  have "{d (points' ! i) (points' ! j) * 2 | i j. i < j \<and> j < length points'}
          = {d (points ! i) (points ! j) * 2 | i j. i < j \<and> j < length points}"
    unfolding pairs [OF set_eq] pairs [OF refl] assms(1) ..
  then show ?thesis
    unfolding diameter_of_data_Max [OF assms(2)] d_def by simp
qed

text \<open>The witness reorders a cloud of three points; the symmetry of the flat distance on
  them is established inside the proof.\<close>

theorem diameter_permutation_invariant_witness:
  "mset [[3], [0], [1::real]] = mset [[0], [3], [1]]
   \<and> (Some ''S1'' = Some ''S1'' \<or> Some ''S1'' = Some ''S2'')
   \<and> diameter_of_data flat_hs [[3], [0], [1]] (Some ''S1'')
       = diameter_of_data flat_hs [[0], [3], [1]] (Some ''S1'')"
proof -
  have h1: "mset [[3], [0], [1::real]] = mset [[0], [3], [1]]" by simp
  have h2: "Some ''S1'' = Some ''S1'' \<or> Some ''S1'' = Some ''S2''" by simp
  have h3: "\<forall>p\<in>set [[0], [3], [1::real]]. \<forall>q\<in>set [[0], [3], [1::real]].
         metric_dist (space_metric flat_hs (Some ''S1'')) p q
           = metric_dist (space_metric flat_hs (Some ''S1'')) q p"
    by (simp add: space_metric_def flat_hs_def flat_metric_def)
  note t = diameter_permutation_invariant [OF h1 h2 h3]
  show ?thesis by (intro conjI h1 h2 t)
qed

section \<open>Empty point clouds\<close>

text \<open>
  C7 (amended). The code has no error of its own for an empty cloud. With a supported space,
  karcher_flow and optimal_quantization (with at least one center) on an empty cloud raise
  the ValueError of the random index draw, before anything is drawn and before any
  iteration; closest_neighbor on an empty candidate set raises the ValueError of argmin;
  and diameter_of_data on an empty cloud does not raise: it returns 0.0.
\<close>

theorem empty_cloud_behaviour:
  assumes "space = Some ''S1'' \<or> space = Some ''S2''" and "1 \<le> n_centers"
  shows "karcher_flow hs [] space tolerance g = Some (Inl ValueError, g)
       \<and> optimal_quantization hs [] n_centers space n_repetition tolerance g
           = Some (Inl ValueError, g)
       \<and> closest_neighbor hs point [] space = Inl ValueError
       \<and> diameter_of_data hs [] space = Inr 0"
proof -
  have "0 < n_centers" using assms(2) by simp
  then show ?thesis
    by (simp add: karcher_flow_def optimal_quantization_def closest_neighbor_def
        diameter_of_data_def select_metric_supported [OF assms(1)] sample_from_empty argmin_def)
qed

theorem empty_cloud_behaviour_witness:
  "(Some ''S2'' = Some ''S1'' \<or> Some ''S2'' = Some ''S2'') \<and> (1::nat) \<le> 10
   \<and> karcher_flow flat_hs [] (Some ''S2'') TOLERANCE id = Some (Inl ValueError, id)
   \<and> optimal_quantization flat_hs [] 10 (Some ''S2'') 20 TOLERANCE id
       = Some (Inl ValueError, id)
   \<and> closest_neighbor flat_hs [0, 0, 1] [] (Some ''S2'') = Inl ValueError
   \<and> diameter_of_data flat_hs [] (Some ''S2'') = Inr 0"
proof -
  have h1: "Some ''S2'' = Some ''S1'' \<or> Some ''S2'' = Some ''S2''" by simp
  have h2: "(1::nat) \<le> 10" by simp
  note t = empty_cloud_behaviour [OF h1 h2, of flat_hs TOLERANCE id 20 "[0, 0, 1]"]
  show ?thesis using h1 h2 t by simp
qed

text \<open>diameter_of_data on the empty cloud returns a value.\<close>

theorem empty_cloud_diameter_counterexample:
  "diameter_of_data flat_hs [] (Some ''S1'') = Inr 0"
  by (simp add: diameter_of_data_def select_metric_def space_in_IMPLEMENTED_def
      IMPLEMENTED_def)

section \<open>The heap-level operations compute the value-level results\<close>

text \<open>Read at the addresses they return, the results of the operations on the heap are
  the results of the operations on values, run on the array stored at the address of the
  input cloud; a run of one never leaves its loop exactly when the run of the other never
  does.\<close>

lemma sample_from_h_value:
  "sample_from_h h points sz g =
     (case sample_from (h ! points) sz g of
        (Inl e, g') \<Rightarrow> (Inl e, h, g')
      | (Inr sample, g') \<Rightarrow> (Inr (length h), h @ [sample], g'))"
  by (simp add: sample_from_h_def sample_from_def alloc_def Let_def randint_def)

lemma quantization_step_h_refines:
  assumes "points < c" and "c < length h"
  shows "centers_value (quantization_step_h hs m points space n_repetition (err, h, c, gap, step, g))
           = quantization_step hs m (h ! points) space n_repetition (err, h ! c, gap, step, g)
       \<and> (case quantization_step_h hs m points space n_repetition (err, h, c, gap, step, g) of
            (err', h', c', gap', step', g') \<Rightarrow>
              c' = c \<and> c < length h' \<and> h' ! points = h ! points)"
  using assms
  by (auto simp: quantization_step_h_def quantization_step_def centers_value_def
      sample_from_h_value set_row_def Let_def nth_append
      split: prod.splits sum.splits)

lemma quantization_loop_h_refines:
  assumes "points < c" and "c < length h"
  shows "map_option centers_value
           (while_option (quantization_cond_h tolerance)
              (quantization_step_h hs m points space n_repetition) (err, h, c, gap, step, g))
         = quantization_loop hs m (h ! points) space n_repetition tolerance
             (err, h ! c, gap, step, g)"
proof -
  define P :: "qstate_h \<Rightarrow> bool" where
    "P = (\<lambda>s. case s of (err', h', c', gap', step', g') \<Rightarrow>
                 c' = c \<and> c < length h' \<and> h' ! points = h ! points)"
  have step: "centers_value (quantization_step_h hs m points space n_repetition s)
                = quantization_step hs m (h ! points) space n_repetition (centers_value s)
              \<and> P (quantization_step_h hs m points space n_repetition s)"
    if "P s" for s
  proof -
    obtain err' h' c' gap' step' g' where s: "s = (err', h', c', gap', step', g')"
      by (cases s) auto
    have p: "c' = c" "c < length h'" "h' ! points = h ! points"
      using that by (simp_all add: P_def s)
    show ?thesis
      using quantization_step_h_refines [OF assms(1) p(2), of hs m space n_repetition err' gap'
          step' g'] p
      by (auto simp: s centers_value_def P_def)
  qed
  have "map_option centers_value
           (while_option (quantization_cond_h tolerance)
              (quantization_step_h hs m points space n_repetition) (err, h, c, gap, step, g))
         = while_option (quantization_cond tolerance)
             (quantization_step hs m (h ! points) space n_repetition)
             (centers_value (err, h, c, gap, step, g))"
  proof (rule while_option_commute_invariant [where P = P])
    fix s assume "P s"
    then show "P (quantization_step_h hs m points space n_repetition s)" using step by blast
  next
    fix s assume "P s"
    show "quantization_cond_h tolerance s = quantization_cond tolerance (centers_value s)"
      by (cases s) (simp add: quantization_cond_h_def quantization_cond_def centers_value_def)
  next
    fix s assume "P s"
    then show "centers_value (quantization_step_h hs m points space n_repetition s)
                 = quantization_step hs m (h ! points) space n_repetition (centers_value s)"
      using step by blast
  next
    show "P (err, h, c, gap, step, g)" using assms by (simp add: P_def)
  qed
  then show ?thesis by (simp add: quantization_loop_def centers_value_def)
qed

lemma quantization_loop_h_points:
  assumes "while_option (quantization_cond_h tolerance)
             (quantization_step_h hs m points space n_repetition) (err, h, c, gap, step, g)
           = Some (err', h', c', gap', step', g')"
    and "points < c" and "c < length h"
  shows "c' = c \<and> h' ! points = h ! points"
proof -
  have "case (err', h', c', gap', step', g') of (e, h'', c'', r) \<Rightarrow>
          c'' = c \<and> c < length h'' \<and> h'' ! points = h ! points"
  proof (rule while_option_rule [OF _ assms(1)])
    show "case (err, h, c, gap, step, g) of (e, h'', c'', r) \<Rightarrow>
            c'' = c \<and> c < length h'' \<and> h'' ! points = h ! points"
      using assms(3) by simp
  next
    fix s :: qstate_h
    assume inv: "case s of (e, h'', c'', r) \<Rightarrow>
                   c'' = c \<and> c < length h'' \<and> h'' ! points = h ! points"
    obtain e1 h1 c1 gap1 step1 g1 where s: "s = (e1, h1, c1, gap1, step1, g1)"
      by (cases s) auto
    have p: "c1 = c" "c < length h1" "h1 ! points = h ! points" using inv by (simp_all add: s)
    show "case quantization_step_h hs m points space n_repetition s of (e, h'', c'', r) \<Rightarrow>
            c'' = c \<and> c < length h'' \<and> h'' ! points = h ! points"
      using quantization_step_h_refines [OF assms(2) p(2), of hs m space n_repetition e1 gap1
          step1 g1] p
      by (auto simp: s split: prod.splits)
  qed
  then show ?thesis by simp
qed

lemma optimal_quantization_h_refines:
  assumes "points < length h"
  shows "map_option
           (\<lambda>(res, h', g').
               (case res of Inl e \<Rightarrow> Inl e
                | Inr (centers, weights, clustering, step) \<Rightarrow>
                    Inr (h' ! centers, weights, clustering, step), g'))
           (optimal_quantization_h hs h points n_centers space n_repetition tolerance g)
         = optimal_quantization hs (h ! points) n_centers space n_repetition tolerance g"
proof (cases "select_metric hs ''The optimal quantization function is not implemented for space ''
             ''. The spaces available for quantization are: '' space")
  case (Inl e)
  then show ?thesis by (simp add: optimal_quantization_h_def optimal_quantization_def)
next
  case (Inr m)
  obtain r g1 where sv: "sample_from (h ! points) n_centers g = (r, g1)"
    by (cases "sample_from (h ! points) n_centers g") auto
  show ?thesis
  proof (cases r)
    case (Inl e)
    then show ?thesis
      using Inr sv
      by (simp add: optimal_quantization_h_def optimal_quantization_def sample_from_h_value)
  next
    case r: (Inr c0)
    define h1 where "h1 = h @ [c0]"
    define c where "c = length h"
    have pc: "points < c" "c < length h1" using assms by (simp_all add: c_def h1_def)
    have vals: "h1 ! points = h ! points" "h1 ! c = c0"
      using assms by (simp_all add: h1_def c_def nth_append)
    have sh: "sample_from_h h points n_centers g = (Inr c, h1, g1)"
      by (simp add: sample_from_h_value sv r c_def h1_def)
    note lr = quantization_loop_h_refines [OF pc, of tolerance hs m space n_repetition None 1 0 g1,
        unfolded vals]
    show ?thesis
    proof (cases "while_option (quantization_cond_h tolerance)
             (quantization_step_h hs m points space n_repetition) (None, h1, c, 1, 0, g1)")
      case None
      then have "quantization_loop hs m (h ! points) space n_repetition tolerance
                   (None, c0, 1, 0, g1) = None"
        using lr by simp
      then show ?thesis
        using Inr sv r sh None
        by (simp add: optimal_quantization_h_def optimal_quantization_def)
    next
      case (Some t)
      obtain err' h' c' gap' step' g' where t: "t = (err', h', c', gap', step', g')"
        by (cases t) auto
      have pts: "c' = c" "h' ! points = h ! points"
        using quantization_loop_h_points [OF Some [unfolded t] pc] vals by simp_all
      have pure: "quantization_loop hs m (h ! points) space n_repetition tolerance
                   (None, c0, 1, 0, g1) = Some (err', h' ! c, gap', step', g')"
        using lr Some t pts by (simp add: centers_value_def)
      show ?thesis
        using Inr sv r sh Some t pts pure
        by (auto simp: optimal_quantization_h_def optimal_quantization_def Let_def
            split: option.splits sum.splits prod.splits)
    qed
  qed
qed

lemma tangent_rows_fold:
  assumes "points < length h" and "km < length h" and "k \<le> n"
  shows "fold (\<lambda>i h'. set_row h' (length h) i (metric_log m ((h' ! points) ! i) (hd (h' ! km))))
           [0..<k] (h @ [replicate n z])
         = h @ [map (\<lambda>i. metric_log m ((h ! points) ! i) (hd (h ! km))) [0..<k]
                @ replicate (n - k) z]"
  using assms(3)
proof (induction k)
  case 0
  then show ?case by simp
next
  case (Suc k)
  have k: "k < n" using Suc.prems by simp
  have rep: "replicate (n - k) z = z # replicate (n - Suc k) z"
    using k by (cases "n - k") (simp_all add: Suc_diff_Suc)
  show ?case
    using Suc.IH k assms(1,2)
    by (simp add: set_row_def nth_append list_update_append rep)
qed

lemma karcher_step_h_refines:
  assumes "points < length h" and "km < length h"
  shows "mean_value (karcher_step_h m points (h, km, gap, step))
           = karcher_step m (h ! points) (hd (h ! km), gap, step)
       \<and> (case karcher_step_h m points (h, km, gap, step) of
            (h', km', gap', step') \<Rightarrow>
              km' < length h' \<and> points < length h' \<and> h' ! points = h ! points)"
proof -
  have rows: "map (\<lambda>i. metric_log m ((h ! points) ! i) (hd (h ! km))) [0..<length (h ! points)]
              = map (\<lambda>p. metric_log m p (hd (h ! km))) (h ! points)"
    by (rule nth_equalityI) simp_all
  show ?thesis
    using assms
    by (simp add: karcher_step_h_def karcher_step_def mean_value_def alloc_def Let_def
        tangent_rows_fold [OF assms order_refl] rows nth_append)
qed

lemma karcher_loop_h_refines:
  assumes "points < length h" and "km < length h"
  shows "map_option mean_value
           (while_option (karcher_cond_h tolerance) (karcher_step_h m points) (h, km, gap, step))
         = karcher_loop m (h ! points) tolerance (hd (h ! km), gap, step)"
proof -
  define P :: "kstate_h \<Rightarrow> bool" where
    "P = (\<lambda>s. case s of (h', km', gap', step') \<Rightarrow>
                 km' < length h' \<and> points < length h' \<and> h' ! points = h ! points)"
  have step: "mean_value (karcher_step_h m points s) = karcher_step m (h ! points) (mean_value s)
              \<and> P (karcher_step_h m points s)"
    if "P s" for s
  proof -
    obtain h' km' gap' step' where s: "s = (h', km', gap', step')"
      by (cases s) auto
    have p: "km' < length h'" "points < length h'" "h' ! points = h ! points"
      using that by (simp_all add: P_def s)
    show ?thesis
      using karcher_step_h_refines [OF p(2) p(1), of m gap' step'] p
      by (auto simp: s mean_value_def P_def)
  qed
  have "map_option mean_value
           (while_option (karcher_cond_h tolerance) (karcher_step_h m points) (h, km, gap, step))
         = while_option (karcher_cond tolerance) (karcher_step m (h ! points))
             (mean_value (h, km, gap, step))"
  proof (rule while_option_commute_invariant [where P = P])
    fix s assume "P s"
    then show "P (karcher_step_h m points s)" using step by blast
  next
    fix s assume "P s"
    show "karcher_cond_h tolerance s = karcher_cond tolerance (mean_value s)"
      by (cases s) (simp add: karcher_cond_h_def karcher_cond_def mean_value_def)
  next
    fix s assume "P s"
    then show "mean_value (karcher_step_h m points s)
                 = karcher_step m (h ! points) (mean_value s)"
      using step by blast
  next
    show "P (h, km, gap, step)" using assms by (simp add: P_def)
  qed
  then show ?thesis by (simp add: karcher_loop_def mean_value_def)
qed

lemma karcher_flow_h_refines:
  assumes "points < length h"
  shows "map_option
           (\<lambda>(res, h', g').
               (case res of Inl e \<Rightarrow> Inl e
                | Inr (karcher_mean, step) \<Rightarrow> Inr (hd (h' ! karcher_mean), step), g'))
           (karcher_flow_h hs h points space tolerance g)
         = karcher_flow hs (h ! points) space tolerance g"
proof (cases "select_metric hs ''The Karcher mean function is not implemented for space ''
             ''. The spaces available for Karcher flow are: '' space")
  case (Inl e)
  then show ?thesis by (simp add: karcher_flow_h_def karcher_flow_def)
next
  case (Inr m)
  obtain r g1 where sv: "sample_from (h ! points) 1 g = (r, g1)"
    by (cases "sample_from (h ! points) 1 g") auto
  show ?thesis
  proof (cases r)
    case (Inl e)
    then show ?thesis
      using Inr sv by (simp add: karcher_flow_h_def karcher_flow_def sample_from_h_value)
  next
    case r: (Inr c0)
    define h1 where "h1 = h @ [c0]"
    define c where "c = length h"
    have pc: "points < length h1" "c < length h1" using assms by (simp_all add: c_def h1_def)
    have vals: "h1 ! points = h ! points" "h1 ! c = c0"
      using assms by (simp_all add: h1_def c_def nth_append)
    have sh: "sample_from_h h points 1 g = (Inr c, h1, g1)"
      using sv r by (simp add: sample_from_h_value c_def h1_def)
    note lr = karcher_loop_h_refines [OF pc, of tolerance m 1 0, unfolded vals]
    show ?thesis
    proof (cases "while_option (karcher_cond_h tolerance) (karcher_step_h m points)
                    (h1, c, 1, 0)")
      case None
      then have "karcher_loop m (h ! points) tolerance (hd c0, 1, 0) = None"
        using lr by simp
      then show ?thesis
        using Inr sv r sh None by (simp add: karcher_flow_h_def karcher_flow_def)
    next
      case (Some t)
      obtain h' km' gap' step' where t: "t = (h', km', gap', step')"
        by (cases t) auto
      have pure: "karcher_loop m (h ! points) tolerance (hd c0, 1, 0)
                    = Some (hd (h' ! km'), gap', step')"
        using lr Some t by (simp add: mean_value_def)
      show ?thesis
        using Inr sv r sh Some t pure by (simp add: karcher_flow_h_def karcher_flow_def)
    qed
  qed
qed

section \<open>The input cloud is not written\<close>

lemma alloc_take:
  assumes "alloc h a = (h', x)" and "n \<le> length h"
  shows "take n h' = take n h" and "x = length h" and "length h' = Suc (length h)"
  using assms by (auto simp: alloc_def)

lemma set_row_take:
  assumes "n \<le> a"
  shows "take n (set_row h a i row) = take n h" and "length (set_row h a i row) = length h"
  using assms by (simp_all add: set_row_def)

lemma fold_set_row_take:
  assumes "n \<le> a"
  shows "take n (fold (\<lambda>i h'. set_row h' a i (f i h')) idx h) = take n h
       \<and> length (fold (\<lambda>i h'. set_row h' a i (f i h')) idx h) = length h"
  using assms by (induction idx arbitrary: h) (simp_all add: set_row_take)

lemma sample_from_h_take:
  assumes "sample_from_h h points sz g = (res, h', g')" and "n \<le> length h"
  shows "take n h' = take n h" and "length h \<le> length h'"
    and "\<And>s. res = Inr s \<Longrightarrow> s = length h \<and> length h' = Suc (length h)"
  using assms
  by (auto simp: sample_from_h_def alloc_def Let_def split: prod.splits sum.splits)

lemma take_all_length:
  assumes "take n h = h0" and "n = length h0"
  shows "n \<le> length h"
  using assms by (metis length_take min.cobounded1 min_def nat_le_linear)

lemma karcher_step_h_frame:
  assumes "take n h = h0" and "n = length h0" and "n \<le> km"
    and "karcher_step_h m points (h, km, gap, step) = (h', km', gap', step')"
  shows "take n h' = h0 \<and> n \<le> km'"
proof -
  have nh: "n \<le> length h" using assms(1,2) by (rule take_all_length)
  obtain h1 tv where a1:
    "alloc h (replicate (length (h ! points)) (replicate (dimension (h ! points)) 0)) = (h1, tv)"
    by (cases "alloc h (replicate (length (h ! points)) (replicate (dimension (h ! points)) 0))")
  have h1: "take n h1 = take n h" "tv = length h" "length h1 = Suc (length h)"
    using alloc_take [OF a1 nh] by simp_all
  define h2 where "h2 = fold (\<lambda>i h'. set_row h' tv i
                                    (metric_log m ((h' ! points) ! i) (hd (h' ! km))))
                       [0..<length (h ! points)] h1"
  have ntv: "n \<le> tv" using h1(2) nh by simp
  have h2: "take n h2 = take n h1" "length h2 = length h1"
    unfolding h2_def
    using fold_set_row_take [OF ntv,
        of "\<lambda>i h'. metric_log m ((h' ! points) ! i) (hd (h' ! km))" "[0..<length (h ! points)]" h1]
    by simp_all
  define tvu where "tvu = map (\<lambda>s. s / real (length (h ! points)))
                                   (sum_axis0 (dimension (h2 ! points)) (h2 ! tv))"
  obtain h3 kmu where a3: "alloc h2 [metric_exp m tvu (hd (h2 ! km))] = (h3, kmu)"
    by (cases "alloc h2 [metric_exp m tvu (hd (h2 ! km))]")
  have nh2: "n \<le> length h2" using h2(2) h1(3) nh by simp
  have h3: "take n h3 = take n h2" "kmu = length h2"
    using alloc_take [OF a3 nh2] by simp_all
  have "karcher_step_h m points (h, km, gap, step)
          = (h3, kmu, metric_dist m (hd (h3 ! km)) (hd (h3 ! kmu)), step + 1)"
    by (simp add: karcher_step_h_def Let_def a1 h2_def [symmetric] tvu_def [symmetric] a3)
  then have "h' = h3" "km' = kmu" using assms(4) by simp_all
  then show ?thesis using h3 h2 h1 nh2 assms(1) by simp
qed

lemma quantization_step_h_frame:
  assumes "take n h = h0" and "n = length h0" and "n \<le> c"
    and "quantization_step_h hs m points space n_repetition (err, h, c, gap, step, g)
           = (err', h', c', gap', step', g')"
  shows "take n h' = h0 \<and> n \<le> c'"
proof -
  have nh: "n \<le> length h" using assms(1,2) by (rule take_all_length)
  obtain res h1 g1 where s: "sample_from_h h points 1 g = (res, h1, g1)"
    by (cases "sample_from_h h points 1 g") auto
  have h1: "take n h1 = take n h" using sample_from_h_take(1) [OF s nh] .
  have row: "take n (set_row h1 c i r) = take n h1" for i r
    using assms(3) by (rule set_row_take)
  show ?thesis
    using assms(3,4) h1 assms(1) row s
    by (auto simp: quantization_step_h_def Let_def
        split: if_splits sum.splits prod.splits)
qed

lemma karcher_loop_h_frame:
  assumes "while_option (karcher_cond_h tolerance) (karcher_step_h m points) st = Some t"
    and "take n (fst st) = h0" and "n = length h0" and "n \<le> fst (snd st)"
  shows "take n (fst t) = h0 \<and> n \<le> fst (snd t)"
proof (rule while_option_rule [where P = "\<lambda>s. take n (fst s) = h0 \<and> n \<le> fst (snd s)",
      OF _ assms(1)])
  show "take n (fst st) = h0 \<and> n \<le> fst (snd st)" using assms(2,4) by simp
next
  fix s :: kstate_h
  assume inv: "take n (fst s) = h0 \<and> n \<le> fst (snd s)"
  obtain h km gap step where s: "s = (h, km, gap, step)" by (cases s) auto
  obtain h' km' gap' step' where s': "karcher_step_h m points s = (h', km', gap', step')"
    by (cases "karcher_step_h m points s") auto
  have "take n h' = h0 \<and> n \<le> km'"
    using karcher_step_h_frame [OF _ assms(3) _ s' [unfolded s]] inv s by simp
  then show "take n (fst (karcher_step_h m points s)) = h0
               \<and> n \<le> fst (snd (karcher_step_h m points s))"
    by (simp add: s')
qed

lemma quantization_loop_h_frame:
  assumes "while_option (quantization_cond_h tolerance)
             (quantization_step_h hs m points space n_repetition) st = Some t"
    and "take n (fst (snd st)) = h0" and "n = length h0" and "n \<le> fst (snd (snd st))"
  shows "take n (fst (snd t)) = h0 \<and> n \<le> fst (snd (snd t))"
proof (rule while_option_rule
      [where P = "\<lambda>s. take n (fst (snd s)) = h0 \<and> n \<le> fst (snd (snd s))", OF _ assms(1)])
  show "take n (fst (snd st)) = h0 \<and> n \<le> fst (snd (snd st))" using assms(2,4) by simp
next
  fix s :: qstate_h
  assume inv: "take n (fst (snd s)) = h0 \<and> n \<le> fst (snd (snd s))"
  obtain err h c gap step g where s: "s = (err, h, c, gap, step, g)" by (cases s) auto
  obtain err' h' c' gap' step' g' where
    s': "quantization_step_h hs m points space n_repetition s = (err', h', c', gap', step', g')"
    by (cases "quantization_step_h hs m points space n_repetition s") auto
  have "take n h' = h0 \<and> n \<le> c'"
    using quantization_step_h_frame [OF _ assms(3) _ s' [unfolded s]] inv s by simp
  then show "take n (fst (snd (quantization_step_h hs m points space n_repetition s))) = h0
               \<and> n \<le> fst (snd (snd (quantization_step_h hs m points space n_repetition s)))"
    by (simp add: s')
qed

lemma unchanged_nth:
  assumes "take (length h) h' = h" and "a < length h"
  shows "h' ! a = h ! a"
  using assms by (metis nth_take)

lemma karcher_flow_h_frame:
  assumes "karcher_flow_h hs h points space tolerance g = Some (res, h', g')"
  shows "take (length h) h' = h \<and> (\<forall>km n. res = Inr (km, n) \<longrightarrow> length h \<le> km)"
proof (cases "select_metric hs ''The Karcher mean function is not implemented for space ''
             ''. The spaces available for Karcher flow are: '' space")
  case (Inl e)
  then show ?thesis using assms by (auto simp: karcher_flow_h_def)
next
  case (Inr m)
  obtain r h1 g1 where s: "sample_from_h h points 1 g = (r, h1, g1)"
    by (cases "sample_from_h h points 1 g") auto
  have h1: "take (length h) h1 = h" using sample_from_h_take(1) [OF s order_refl] by simp
  show ?thesis
  proof (cases r)
    case (Inl e)
    then show ?thesis using assms Inr s h1 by (auto simp: karcher_flow_h_def)
  next
    case r: (Inr km0)
    then have km0: "length h \<le> km0" using sample_from_h_take(3) [OF s order_refl] by simp
    obtain t where t: "while_option (karcher_cond_h tolerance) (karcher_step_h m points)
                          (h1, km0, 1, 0) = Some t"
      using assms Inr s r by (auto simp: karcher_flow_h_def split: option.splits)
    have fr: "take (length h) (fst t) = h \<and> length h \<le> fst (snd t)"
      by (rule karcher_loop_h_frame [OF t]) (use h1 km0 in simp_all)
    obtain h2 km gap step where tt: "t = (h2, km, gap, step)" by (cases t) auto
    have "res = Inr (km, step)" "h' = h2"
      using assms Inr s r t tt by (simp_all add: karcher_flow_h_def)
    then show ?thesis using fr tt by simp
  qed
qed

lemma optimal_quantization_h_frame:
  assumes "optimal_quantization_h hs h points n_centers space n_repetition tolerance g
             = Some (res, h', g')"
  shows "take (length h) h' = h
       \<and> (\<forall>centers weights clustering step.
             res = Inr (centers, weights, clustering, step) \<longrightarrow> length h \<le> centers)"
proof (cases "select_metric hs ''The optimal quantization function is not implemented for space ''
             ''. The spaces available for quantization are: '' space")
  case (Inl e)
  then show ?thesis using assms by (auto simp: optimal_quantization_h_def)
next
  case (Inr m)
  obtain r h1 g1 where s: "sample_from_h h points n_centers g = (r, h1, g1)"
    by (cases "sample_from_h h points n_centers g") auto
  have h1: "take (length h) h1 = h" using sample_from_h_take(1) [OF s order_refl] by simp
  show ?thesis
  proof (cases r)
    case (Inl e)
    then show ?thesis using assms Inr s h1 by (auto simp: optimal_quantization_h_def)
  next
    case r: (Inr c0)
    then have c0: "length h \<le> c0" using sample_from_h_take(3) [OF s order_refl] by simp
    obtain t where t: "while_option (quantization_cond_h tolerance)
                          (quantization_step_h hs m points space n_repetition)
                          (None, h1, c0, 1, 0, g1) = Some t"
      using assms Inr s r by (auto simp: optimal_quantization_h_def split: option.splits)
    have fr: "take (length h) (fst (snd t)) = h \<and> length h \<le> fst (snd (snd t))"
      by (rule quantization_loop_h_frame [OF t]) (use h1 c0 in simp_all)
    obtain err h2 c gap step g2 where tt: "t = (err, h2, c, gap, step, g2)" by (cases t) auto
    have "h' = h2 \<and> (\<forall>centers weights clustering step.
             res = Inr (centers, weights, clustering, step) \<longrightarrow> centers = c)"
      using assms Inr s r t tt
      by (auto simp: optimal_quantization_h_def Let_def
          split: option.splits sum.splits prod.splits)
    then show ?thesis using fr tt by auto
  qed
qed

text \<open>
  C10. Whenever karcher_flow or optimal_quantization returns, on the heap it leaves every
  array that existed at the call is as it was, the input cloud among them; the mean estimate
  and the center set that are returned live at addresses created during the call, so they
  are not the cloud, and the in-place assignments to the center set do not reach it.
\<close>

theorem input_cloud_unchanged:
  assumes "points < length h"
  shows "(\<forall>res h' g'. karcher_flow_h hs h points space tolerance g = Some (res, h', g') \<longrightarrow>
            take (length h) h' = h \<and> h' ! points = h ! points
          \<and> (\<forall>km n. res = Inr (km, n) \<longrightarrow> km \<noteq> points))
       \<and> (\<forall>res h' g'.
            optimal_quantization_h hs h points n_centers space n_repetition tolerance g
              = Some (res, h', g') \<longrightarrow>
            take (length h) h' = h \<and> h' ! points = h ! points
          \<and> (\<forall>centers weights clustering step.
                res = Inr (centers, weights, clustering, step) \<longrightarrow> centers \<noteq> points))"
proof (intro conjI allI impI)
  fix res h' g'
  assume run: "karcher_flow_h hs h points space tolerance g = Some (res, h', g')"
  note fr = karcher_flow_h_frame [OF run]
  show "take (length h) h' = h" using fr by simp
  then show "h' ! points = h ! points" using assms by (rule unchanged_nth)
  fix km n assume "res = Inr (km, n)"
  then have "length h \<le> km" using fr by simp
  then show "km \<noteq> points" using assms by simp
next
  fix res h' g'
  assume run: "optimal_quantization_h hs h points n_centers space n_repetition tolerance g
                 = Some (res, h', g')"
  note fr = optimal_quantization_h_frame [OF run]
  show "take (length h) h' = h" using fr by simp
  then show "h' ! points = h ! points" using assms by (rule unchanged_nth)
  fix centers weights clustering step
  assume "res = Inr (centers, weights, clustering, step)"
  then have "length h \<le> centers" using fr by simp
  then show "centers \<noteq> points" using assms by simp
qed

text \<open>The witness runs both operations on a heap that holds only a cloud of two points.
  optimal_quantization makes two steps, each replacing the single center in place, and
  karcher_flow makes two iterations; the cloud at address 0 is as before.\<close>

theorem input_cloud_unchanged_witness:
  "(0::nat) < length [[[0], [2::real]]]
   \<and> (\<exists>g'. optimal_quantization_h flat_hs [[[0], [2]]] 0 1 (Some ''S1'') 20 (1 / 2) (\<lambda>i. i)
          = Some (Inr (1, [1], [0, 0], 2), [[[0], [2]], [[1 / 2]], [[2]], [[0]]], g'))
   \<and> take (length [[[0], [2::real]]]) [[[0], [2]], [[1 / 2]], [[2]], [[0::real]]]
       = [[[0], [2]]]
   \<and> [[[0], [2]], [[1 / 2]], [[2]], [[0::real]]] ! 0 = [[[0], [2]]] ! 0
   \<and> (1::nat) \<noteq> 0
   \<and> (\<exists>g'. karcher_flow_h flat_hs [[[0], [2]]] 0 (Some ''S1'') (1 / 2) (\<lambda>i. 0)
          = Some (Inr (5, 2),
                  [[[0], [2]], [[0]], [[0], [2]], [[1]], [[- 1], [1]], [[1]]], g'))
   \<and> take (length [[[0], [2::real]]])
         [[[0], [2]], [[0]], [[0], [2]], [[1]], [[- 1], [1]], [[1::real]]]
       = [[[0], [2]]]
   \<and> (5::nat) \<noteq> 0"
proof -
  have h1: "(0::nat) < length [[[0], [2::real]]]" by simp
  have runq: "\<exists>g'. optimal_quantization_h flat_hs [[[0], [2]]] 0 1 (Some ''S1'') 20 (1 / 2)
                     (\<lambda>i. i)
          = Some (Inr (1, [1], [0, 0], 2), [[[0], [2]], [[1 / 2]], [[2]], [[0]]], g')"
    by (simp add: optimal_quantization_h_def select_metric_def space_in_IMPLEMENTED_def
        IMPLEMENTED_def sample_from_h_def randint_def alloc_def set_row_def
        quantization_step_h_def quantization_cond_h_def while_option_unfold
        closest_neighbor_def argmin_def substituted_gap_def float64_one
        flat_hs_def flat_metric_def Let_def eval_nat_numeral)
  have runk: "\<exists>g'. karcher_flow_h flat_hs [[[0], [2]]] 0 (Some ''S1'') (1 / 2) (\<lambda>i. 0)
          = Some (Inr (5, 2),
                  [[[0], [2]], [[0]], [[0], [2]], [[1]], [[- 1], [1]], [[1]]], g')"
    by (simp add: karcher_flow_h_def select_metric_def space_in_IMPLEMENTED_def
        IMPLEMENTED_def sample_from_h_def randint_def alloc_def set_row_def
        karcher_step_h_def karcher_cond_h_def while_option_unfold
        sum_axis0_def dimension_def
        flat_hs_def flat_metric_def Let_def eval_nat_numeral)
  note tq = input_cloud_unchanged [OF h1, where hs = flat_hs
      and space = "Some ''S1''" and tolerance = "1 / 2" and g = "\<lambda>i. i" and n_centers = 1
      and n_repetition = 20, THEN conjunct2]
  note tk = input_cloud_unchanged [OF h1, where hs = flat_hs
      and space = "Some ''S1''" and tolerance = "1 / 2" and g = "\<lambda>i. 0" and n_centers = 1
      and n_repetition = 20, THEN conjunct1]
  from runq obtain gq where rq:
    "optimal_quantization_h flat_hs [[[0], [2]]] 0 1 (Some ''S1'') 20 (1 / 2) (\<lambda>i. i)
       = Some (Inr (1, [1], [0, 0], 2), [[[0], [2]], [[1 / 2]], [[2]], [[0]]], gq)" ..
  from runk obtain gk where rk:
    "karcher_flow_h flat_hs [[[0], [2]]] 0 (Some ''S1'') (1 / 2) (\<lambda>i. 0)
       = Some (Inr (5, 2), [[[0], [2]], [[0]], [[0], [2]], [[1]], [[- 1], [1]], [[1]]], gk)" ..
  have fq: "take (length [[[0], [2::real]]]) [[[0], [2]], [[1 / 2]], [[2]], [[0::real]]]
              = [[[0], [2]]]
          \<and> [[[0], [2]], [[1 / 2]], [[2]], [[0::real]]] ! 0 = [[[0], [2]]] ! 0
          \<and> (1::nat) \<noteq> 0"
    using tq rq by blast
  have fk: "take (length [[[0], [2::real]]])
              [[[0], [2]], [[0]], [[0], [2]], [[1]], [[- 1], [1]], [[1::real]]]
              = [[[0], [2]]]
          \<and> (5::nat) \<noteq> 0"
    using tk rk by blast
  show ?thesis using h1 runq runk fq fk by blast
qed

end
